theory Spec2Isabelle
  imports Complex_Main "HOL-Library.AList" "HOL-Library.Multiset"
begin

section \<open>Flow compensation: a shallow embedding of flow_compensator.py\<close>

text \<open>
  Python floats are modelled as exact real numbers: every arithmetic operation of the
  source is the corresponding operation on \<^typ>\<open>real\<close>, and \<open>math.pi\<close> is \<^term>\<open>pi\<close>.
  Rounding errors, infinities and NaN are outside this model. A Python dict is an
  association list in insertion order (\<^const>\<open>map_of\<close> looks a key up,
  \<^const>\<open>AList.update\<close> stores a value the way item assignment does). Every
  \<open>raise\<close> of the source, and every failing dictionary or \<open>None\<close> access, is a value
  \<open>Inl e\<close> of a sum type. Output written with \<open>print\<close> is not modelled.
\<close>

datatype error = ValueError | KeyError | TypeError

subsection \<open>Configuration and material profiles\<close>

text \<open>
  A material profile is the dict read from the configuration file; only the keys the
  engine reads are kept. A key that is absent is \<open>None\<close>. The empty dict, which Python
  treats as false in \<open>if not profile\<close>, is the record with both fields \<open>None\<close>.
\<close>

record profile =
  profile_name :: "string option"
  curve_points :: "(real \<times> real) list option"

definition profile_empty :: "profile \<Rightarrow> bool" where
  "profile_empty p = (profile_name p = None \<and> curve_points p = None)"

text \<open>
  The configuration dict. \<open>materials\<close> is \<open>config.get('materials', {})\<close>; the other
  fields are the optional entries \<open>auto_detect.fallback_material\<close>,
  \<open>output.min_compensation\<close>, \<open>output.max_compensation\<close> and \<open>output.log_changes\<close>.
\<close>

record config =
  materials :: "(string \<times> profile) list"
  fallback_material :: "string option"
  min_compensation :: "real option"
  max_compensation :: "real option"
  log_changes :: "bool option"

subsection \<open>The interpolant\<close>

text \<open>
  Modelled from the spec: the class \<open>PchipInterpolator\<close> is imported from
  \<open>scipy.interpolate\<close> and is not part of the repository. The spec describes it as a
  shape-preserving (monotone) piecewise-cubic interpolant over control points with
  strictly increasing flow rates, at least two of them, whose construction fails
  otherwise. The model is the PCHIP construction of the library: slopes at the knots
  by the weighted harmonic mean of the neighbouring secant slopes (zero where the
  secants change sign), a three-point estimate at both ends, and one cubic in Hermite
  form per interval, stored as the library does by its four coefficients in powers of
  the distance from the left knot.
\<close>

type_synonym coeffs = "real \<times> real \<times> real \<times> real"

record spline =
  spline_x :: "real list"
  spline_c :: "coeffs list"

fun diffs :: "real list \<Rightarrow> real list" where
  "diffs (a # b # xs) = (b - a) # diffs (b # xs)"
| "diffs _ = []"

fun slopes :: "real list \<Rightarrow> real list \<Rightarrow> real list" where
  "slopes (dy # dys) (h # hs) = (dy / h) # slopes dys hs"
| "slopes _ _ = []"

definition edge_case :: "real \<Rightarrow> real \<Rightarrow> real \<Rightarrow> real \<Rightarrow> real" where
  "edge_case h0 h1 m0 m1 =
     (let d = ((2 * h0 + h1) * m0 - h0 * m1) / (h0 + h1)
      in if sgn d \<noteq> sgn m0 then 0
         else if sgn m0 \<noteq> sgn m1 \<and> \<bar>d\<bar> > 3 * \<bar>m0\<bar> then 3 * m0
         else d)"

definition interior_slope :: "real \<Rightarrow> real \<Rightarrow> real \<Rightarrow> real \<Rightarrow> real" where
  "interior_slope h0 h1 m0 m1 =
     (if sgn m1 \<noteq> sgn m0 \<or> m1 = 0 \<or> m0 = 0 then 0
      else (let w1 = 2 * h1 + h0; w2 = h1 + 2 * h0
            in 1 / ((w1 / m0 + w2 / m1) / (w1 + w2))))"

fun interior_slopes :: "real list \<Rightarrow> real list \<Rightarrow> real list" where
  "interior_slopes (h0 # h1 # hs) (m0 # m1 # ms) =
     interior_slope h0 h1 m0 m1 # interior_slopes (h1 # hs) (m1 # ms)"
| "interior_slopes _ _ = []"

definition find_derivatives :: "real list \<Rightarrow> real list \<Rightarrow> real list" where
  "find_derivatives xs ys =
     (let hk = diffs xs; mk = slopes (diffs ys) hk
      in if length ys = 2 then [hd mk, hd mk]
         else edge_case (hd hk) (hd (tl hk)) (hd mk) (hd (tl mk))
              # interior_slopes hk mk
              @ [edge_case (last hk) (last (butlast hk)) (last mk) (last (butlast mk))])"

definition hermite_piece :: "real \<Rightarrow> real \<Rightarrow> real \<Rightarrow> real \<Rightarrow> real \<Rightarrow> real \<Rightarrow> coeffs" where
  "hermite_piece x0 x1 y0 y1 d0 d1 =
     (let h = x1 - x0; m = (y1 - y0) / h; t = (d0 + d1 - 2 * m) / h
      in (t / h, (m - d0) / h - t, d0, y0))"

fun hermite_coeffs :: "real list \<Rightarrow> real list \<Rightarrow> real list \<Rightarrow> coeffs list" where
  "hermite_coeffs (x0 # x1 # xs) (y0 # y1 # ys) (d0 # d1 # ds) =
     hermite_piece x0 x1 y0 y1 d0 d1 # hermite_coeffs (x1 # xs) (y1 # ys) (d1 # ds)"
| "hermite_coeffs _ _ _ = []"

definition PchipInterpolator :: "real list \<Rightarrow> real list \<Rightarrow> error + spline" where
  "PchipInterpolator xs ys =
     (if length xs < 2 \<or> length ys \<noteq> length xs then Inl ValueError
      else if \<not> sorted_wrt (<) xs then Inl ValueError
      else Inr \<lparr>spline_x = xs, spline_c = hermite_coeffs xs ys (find_derivatives xs ys)\<rparr>)"

definition cubic :: "coeffs \<Rightarrow> real \<Rightarrow> real" where
  "cubic c t = (case c of (c0, c1, c2, c3) \<Rightarrow> c0 * t ^ 3 + c1 * t ^ 2 + c2 * t + c3)"

text \<open>
  Evaluation picks the interval whose left knot is the last one not above the argument
  (the last interval at and beyond the last knot, the first one below the first knot)
  and evaluates that interval's cubic. The value here is the exact value of the cubic.
  The library computes it in floating point: at the first knot the distance from the
  left knot is 0 and the result is the constant coefficient, the first control
  multiplier, without rounding; at any other argument, the other knots included, the
  computed value can differ from the exact one in its last bits (at the last knot 30 of
  the PETG profile of the test suite the library returns 1.0599999999999998 where the
  control multiplier is 1.06). No property below equates a value of the interpolant
  away from the first knot with a control multiplier.
\<close>

fun ppoly_eval :: "real list \<Rightarrow> coeffs list \<Rightarrow> real \<Rightarrow> real" where
  "ppoly_eval (x0 # x1 # xs) (c # c' # cs) v =
     (if v < x1 then cubic c (v - x0) else ppoly_eval (x1 # xs) (c' # cs) v)"
| "ppoly_eval (x0 # xs) (c # cs) v = cubic c (v - x0)"
| "ppoly_eval _ _ v = 0"

definition spline_call :: "spline \<Rightarrow> real \<Rightarrow> real" where
  "spline_call s v = ppoly_eval (spline_x s) (spline_c s) v"

subsection \<open>The compensation engine\<close>

text \<open>
  The statistics dict of one tool. \<open>float('inf')\<close>, the initial value of the two
  minima, is \<open>None\<close>; \<open>min(inf, v)\<close> is \<open>v\<close>.
\<close>

record tool_stats =
  total_moves :: nat
  compensated_moves :: nat
  min_flow :: "real option"
  max_flow :: real
  avg_flow :: real
  total_flow :: real
  min_multiplier :: "real option"
  max_multiplier :: real

record tool_profile =
  material :: string
  profile :: profile
  spline :: spline

record FlowCompensator =
  fc_config :: config
  filament_diameter :: "real option"
  filament_area :: "real option"
  tool_profiles :: "(int \<times> tool_profile) list"
  active_tool :: int
  stats :: "(int \<times> tool_stats) list"

definition new_stats :: tool_stats where
  "new_stats = \<lparr>total_moves = 0, compensated_moves = 0, min_flow = None, max_flow = 0,
     avg_flow = 0, total_flow = 0, min_multiplier = None, max_multiplier = 0\<rparr>"

definition init_stats_for_tool :: "int \<Rightarrow> FlowCompensator \<Rightarrow> FlowCompensator" where
  "init_stats_for_tool tool_num fc =
     (if map_of (stats fc) tool_num = None
      then fc\<lparr>stats := AList.update tool_num new_stats (stats fc)\<rparr>
      else fc)"

definition FlowCompensator_init :: "config \<Rightarrow> FlowCompensator" where
  "FlowCompensator_init cfg =
     init_stats_for_tool 0
       \<lparr>fc_config = cfg, filament_diameter = None, filament_area = None,
        tool_profiles = [], active_tool = 0, stats = []\<rparr>"

definition upper_char :: "char \<Rightarrow> char" where
  "upper_char c =
     (case map_of (zip ''abcdefghijklmnopqrstuvwxyz'' ''ABCDEFGHIJKLMNOPQRSTUVWXYZ'') c of
        Some u \<Rightarrow> u
      | None \<Rightarrow> c)"

definition upper :: "string \<Rightarrow> string" where
  "upper s = map upper_char s"

fun find_case_insensitive :: "(string \<times> profile) list \<Rightarrow> string \<Rightarrow> profile option" where
  "find_case_insensitive [] material_type = None"
| "find_case_insensitive ((key, v) # rest) material_type =
     (if upper key = upper material_type then Some v
      else find_case_insensitive rest material_type)"

definition get_material_profile :: "FlowCompensator \<Rightarrow> string \<Rightarrow> profile option" where
  "get_material_profile fc material_type =
     (let ms = materials (fc_config fc)
      in case map_of ms material_type of
           Some p \<Rightarrow> Some p
         | None \<Rightarrow> find_case_insensitive ms material_type)"

definition build_spline_for_profile :: "profile \<Rightarrow> error + spline" where
  "build_spline_for_profile p =
     (let cps = (case curve_points p of None \<Rightarrow> [] | Some l \<Rightarrow> l)
      in if length cps < 2 then Inl ValueError
         else (let points = sort_key fst cps
               in PchipInterpolator (map fst points) (map snd points)))"

definition falsy_profile :: "profile option \<Rightarrow> bool" where
  "falsy_profile po = (case po of None \<Rightarrow> True | Some p \<Rightarrow> profile_empty p)"

definition load_material_profile ::
  "string option \<Rightarrow> int \<Rightarrow> FlowCompensator \<Rightarrow> error + FlowCompensator" where
  "load_material_profile material_type tool_num fc =
     (let ms = materials (fc_config fc);
          named = (case material_type of
                     None \<Rightarrow> None
                   | Some mt \<Rightarrow> if mt = [] then None else get_material_profile fc mt);
          fallback = (case fallback_material (fc_config fc) of
                        None \<Rightarrow> ''default'' | Some f \<Rightarrow> f);
          chosen = (if falsy_profile named
                    then (case map_of ms fallback of
                            Some p \<Rightarrow> Some p
                          | None \<Rightarrow> map_of ms ''default'')
                    else named);
          material_name = (if falsy_profile named then fallback
                           else (case material_type of Some mt \<Rightarrow> mt | None \<Rightarrow> fallback))
      in if falsy_profile chosen then Inl ValueError
         else (case chosen of
                 None \<Rightarrow> Inl ValueError
               | Some p \<Rightarrow>
                   (case build_spline_for_profile p of
                      Inl e \<Rightarrow> Inl e
                    | Inr s \<Rightarrow>
                        Inr (init_stats_for_tool tool_num
                               (fc\<lparr>tool_profiles :=
                                     AList.update tool_num
                                       \<lparr>material = material_name, profile = p, spline = s\<rparr>
                                       (tool_profiles fc)\<rparr>)))))"

definition set_active_tool :: "int \<Rightarrow> FlowCompensator \<Rightarrow> FlowCompensator" where
  "set_active_tool tool_num fc = fc\<lparr>active_tool := tool_num\<rparr>"

definition set_filament_diameter :: "real \<Rightarrow> FlowCompensator \<Rightarrow> FlowCompensator" where
  "set_filament_diameter diameter fc =
     fc\<lparr>filament_diameter := Some diameter,
        filament_area := Some (pi * (diameter / 2) ^ 2)\<rparr>"

text \<open>
  \<open>calculate_flow_rate\<close> multiplies by \<open>self.filament_area\<close>, which is \<open>None\<close> until
  \<open>set_filament_diameter\<close> has run; multiplying a float by \<open>None\<close> raises \<open>TypeError\<close>.
\<close>

definition calculate_flow_rate ::
  "FlowCompensator \<Rightarrow> real \<Rightarrow> real \<Rightarrow> real \<Rightarrow> error + real" where
  "calculate_flow_rate fc extrusion distance feedrate =
     (if distance = 0 then Inr 0
      else (case filament_area fc of
              None \<Rightarrow> Inl TypeError
            | Some area \<Rightarrow> Inr ((extrusion * area / distance) * feedrate / 60)))"

definition min_comp :: "FlowCompensator \<Rightarrow> real" where
  "min_comp fc = (case min_compensation (fc_config fc) of None \<Rightarrow> 0.8 | Some v \<Rightarrow> v)"

definition max_comp :: "FlowCompensator \<Rightarrow> real" where
  "max_comp fc = (case max_compensation (fc_config fc) of None \<Rightarrow> 1.5 | Some v \<Rightarrow> v)"

text \<open>
  \<open>spline.x[0]\<close> and \<open>spline.x[-1]\<close> are the first and the last knot; a spline that
  \<open>PchipInterpolator\<close> returned has at least two knots, so both exist.
\<close>

definition get_compensation_multiplier :: "FlowCompensator \<Rightarrow> real \<Rightarrow> real" where
  "get_compensation_multiplier fc flow_rate =
     (case map_of (tool_profiles fc) (active_tool fc) of
        None \<Rightarrow> 1
      | Some tp \<Rightarrow>
          (let s = spline tp;
               x_min = hd (spline_x s);
               x_max = last (spline_x s);
               flow_rate_clamped = (if flow_rate < x_min then x_min
                                    else if flow_rate > x_max then x_max
                                    else flow_rate);
               multiplier = spline_call s flow_rate_clamped
           in max (min_comp fc) (min (max_comp fc) multiplier)))"

subsection \<open>Text: regular expressions, number parsing and formatting\<close>

text \<open>
  Lines are strings of one-byte characters. \<open>\d\<close> is an ASCII digit and white space is
  what \<open>str.strip\<close> removes within ASCII (codes 9 to 13, 28 to 31 and 32).
\<close>

definition is_digit :: "char \<Rightarrow> bool" where
  "is_digit c = (let n = (of_char c :: nat) in 48 \<le> n \<and> n \<le> 57)"

definition is_space :: "char \<Rightarrow> bool" where
  "is_space c = (let n = (of_char c :: nat) in (9 \<le> n \<and> n \<le> 13) \<or> (28 \<le> n \<and> n \<le> 31) \<or> n = 32)"

definition rstrip :: "string \<Rightarrow> string" where
  "rstrip s = rev (dropWhile is_space (rev s))"

definition strip :: "string \<Rightarrow> string" where
  "strip s = dropWhile is_space (rstrip s)"

definition rstrip_char :: "char \<Rightarrow> string \<Rightarrow> string" where
  "rstrip_char c s = rev (dropWhile (\<lambda>d. d = c) (rev s))"

definition lower_char :: "char \<Rightarrow> char" where
  "lower_char c =
     (case map_of (zip ''ABCDEFGHIJKLMNOPQRSTUVWXYZ'' ''abcdefghijklmnopqrstuvwxyz'') c of
        Some l \<Rightarrow> l
      | None \<Rightarrow> c)"

text \<open>
  The number pattern \<open>[\-+]?\d*\.?\d+\<close>, matched at the start of a string the way a
  backtracking matcher with greedy quantifiers does: an optional sign, the longest run
  of digits, then a dot with the longest run of digits after it when at least one digit
  follows the dot; without such a fraction the digits before must be at least one
  (a sign that is followed by neither is not the start of a match).
  The result is the matched text and the rest of the string.
\<close>

definition split_sign :: "string \<Rightarrow> string \<times> string" where
  "split_sign s =
     (case s of
        c # r \<Rightarrow> if c = CHR ''-'' \<or> c = CHR ''+'' then ([c], r) else ([], s)
      | [] \<Rightarrow> ([], s))"

definition match_unsigned :: "string \<Rightarrow> (string \<times> string) option" where
  "match_unsigned s =
     (let d1 = takeWhile is_digit s;
          s2 = dropWhile is_digit s
      in case s2 of
           c # r \<Rightarrow>
             if c = CHR ''.'' \<and> takeWhile is_digit r \<noteq> []
             then Some (d1 @ [c] @ takeWhile is_digit r, dropWhile is_digit r)
             else if d1 \<noteq> [] then Some (d1, s2) else None
         | [] \<Rightarrow> if d1 \<noteq> [] then Some (d1, s2) else None)"

definition match_number :: "string \<Rightarrow> (string \<times> string) option" where
  "match_number s =
     (case split_sign s of
        (sign, s1) \<Rightarrow>
          (case match_unsigned s1 of
             None \<Rightarrow> None
           | Some (num, rest) \<Rightarrow> Some (sign @ num, rest)))"

text \<open>
  \<open>re.search\<close> for a letter followed by the number pattern: the leftmost match, as
  the text before the letter, the number's text (group 1) and the text after it.
\<close>

fun search_field :: "char \<Rightarrow> string \<Rightarrow> (string \<times> string \<times> string) option" where
  "search_field L [] = None"
| "search_field L (c # s) =
     (case (if c = L then match_number s else None) of
        Some (num, rest) \<Rightarrow> Some ([], num, rest)
      | None \<Rightarrow>
          (case search_field L s of
             None \<Rightarrow> None
           | Some (pre, num, rest) \<Rightarrow> Some (c # pre, num, rest)))"

definition G1_PATTERN_match :: "string \<Rightarrow> bool" where
  "G1_PATTERN_match line =
     (case line of
        g # d # _ \<Rightarrow> g = CHR ''G'' \<and> (d = CHR ''0'' \<or> d = CHR ''1'')
      | _ \<Rightarrow> False)"

text \<open>
  \<open>XYZ_PATTERN.findall\<close>: all matches from left to right, none overlapping. The first
  argument counts the characters of the last match that are still to be passed over.
\<close>

fun findall_from :: "nat \<Rightarrow> string \<Rightarrow> (char \<times> string) list" where
  "findall_from k [] = []"
| "findall_from (Suc k) (c # s) = findall_from k s"
| "findall_from 0 (c # s) =
     (case (if c = CHR ''X'' \<or> c = CHR ''Y'' \<or> c = CHR ''Z'' then match_number s else None) of
        Some (num, rest) \<Rightarrow> (c, num) # findall_from (length num) s
      | None \<Rightarrow> findall_from 0 s)"

definition XYZ_findall :: "string \<Rightarrow> (char \<times> string) list" where
  "XYZ_findall line = findall_from 0 line"

text \<open>
  \<open>EXTRUSION_PATTERN.sub(repl, line)\<close>: every match, from left to right and none
  overlapping, is replaced by what the callback returns for its group 1.
\<close>

fun sub_from :: "(string \<Rightarrow> string) \<Rightarrow> nat \<Rightarrow> string \<Rightarrow> string" where
  "sub_from repl k [] = []"
| "sub_from repl (Suc k) (c # s) = sub_from repl k s"
| "sub_from repl 0 (c # s) =
     (case (if c = CHR ''E'' then match_number s else None) of
        Some (num, rest) \<Rightarrow> repl num @ sub_from repl (length num) s
      | None \<Rightarrow> c # sub_from repl 0 s)"

definition EXTRUSION_sub :: "(string \<Rightarrow> string) \<Rightarrow> string \<Rightarrow> string" where
  "EXTRUSION_sub repl line = sub_from repl 0 line"

definition digit_val :: "char \<Rightarrow> nat" where
  "digit_val c = of_char c - 48"

definition nat_of_digits :: "string \<Rightarrow> nat" where
  "nat_of_digits s = foldl (\<lambda>a c. 10 * a + digit_val c) 0 s"

text \<open>
  \<open>float(text)\<close> on a text of the number pattern: a sign, digits, and a fraction after
  a dot. Every text the number pattern matches is such a literal, so the \<open>ValueError\<close>
  of \<open>float\<close> cannot occur where the source calls it.
\<close>

definition float_of_string :: "string \<Rightarrow> real" where
  "float_of_string s =
     (let (neg, body) = (case s of
                           c # r \<Rightarrow> if c = CHR ''-'' then (True, r)
                                    else if c = CHR ''+'' then (False, r) else (False, s)
                         | [] \<Rightarrow> (False, s));
          ip = takeWhile is_digit body;
          fp = (case dropWhile is_digit body of c # r \<Rightarrow> r | [] \<Rightarrow> []);
          v = real (nat_of_digits ip) + real (nat_of_digits fp) / 10 ^ length fp
      in if neg then - v else v)"

definition digit_char :: "nat \<Rightarrow> char" where
  "digit_char d = ''0123456789'' ! d"

fun str_nat :: "nat \<Rightarrow> string" where
  "str_nat n = (if n < 10 then [digit_char n] else str_nat (n div 10) @ [digit_char (n mod 10)])"

declare str_nat.simps [simp del]

definition str_int :: "int \<Rightarrow> string" where
  "str_int i = (if i < 0 then CHR ''-'' # str_nat (nat (- i)) else str_nat (nat i))"

definition round_half_even :: "real \<Rightarrow> nat" where
  "round_half_even a =
     (let q = nat \<lfloor>a\<rfloor>; r = a - real q
      in if r > 1 / 2 \<or> (r = 1 / 2 \<and> odd q) then q + 1 else q)"

definition zero_pad :: "nat \<Rightarrow> string \<Rightarrow> string" where
  "zero_pad n s = replicate (n - length s) (CHR ''0'') @ s"

text \<open>
  The format specification \<open>.nf\<close>: the value rounded to \<open>n\<close> decimals (to the nearest,
  ties to even), written with exactly \<open>n\<close> digits after the dot. The source formats
  a floating-point number, which can differ from the exact value used here in its last
  bits; the properties below that bound the distance between a formatted number and an
  exact product leave room for that (one unit of the last decimal, not half a unit).
\<close>

definition format_fixed :: "nat \<Rightarrow> real \<Rightarrow> string" where
  "format_fixed n v =
     (let r = round_half_even (\<bar>v\<bar> * 10 ^ n);
          body = str_nat (r div 10 ^ n)
                 @ (if n = 0 then [] else CHR ''.'' # zero_pad n (str_nat (r mod 10 ^ n)))
      in if v < 0 then CHR ''-'' # body else body)"

subsection \<open>The move parser\<close>

record move_info =
  extrusion :: real
  distance :: real
  feedrate :: real

type_synonym position = "string \<rightharpoonup> real"

definition pos_get :: "position \<Rightarrow> string \<Rightarrow> real \<Rightarrow> real" where
  "pos_get p k dflt = (case p k of Some v \<Rightarrow> v | None \<Rightarrow> dflt)"

definition apply_axes :: "position \<Rightarrow> (char \<times> string) list \<Rightarrow> position" where
  "apply_axes p ms = foldl (\<lambda>q (axis, v). q([lower_char axis] \<mapsto> float_of_string v)) p ms"

definition parse_move ::
  "string \<Rightarrow> position \<Rightarrow> real \<Rightarrow> move_info option \<times> position \<times> real" where
  "parse_move line current_pos current_feedrate =
     (if \<not> G1_PATTERN_match line then (None, current_pos, current_feedrate)
      else
        (let new_feedrate = (case search_field (CHR ''F'') line of
                               Some (_, num, _) \<Rightarrow> float_of_string num
                             | None \<Rightarrow> current_feedrate);
             new_pos = apply_axes current_pos (XYZ_findall line)
         in case search_field (CHR ''E'') line of
              None \<Rightarrow> (None, new_pos, new_feedrate)
            | Some (_, num, _) \<Rightarrow>
                (let extrusion_amount = float_of_string num
                 in if extrusion_amount = 0 then (None, new_pos, new_feedrate)
                    else
                      (let dx = pos_get new_pos ''x'' (pos_get current_pos ''x'' 0)
                                - pos_get current_pos ''x'' 0;
                           dy = pos_get new_pos ''y'' (pos_get current_pos ''y'' 0)
                                - pos_get current_pos ''y'' 0;
                           dz = pos_get new_pos ''z'' (pos_get current_pos ''z'' 0)
                                - pos_get current_pos ''z'' 0;
                           dist = sqrt (dx ^ 2 + dy ^ 2 + dz ^ 2)
                       in (Some \<lparr>extrusion = \<bar>extrusion_amount\<bar>, distance = dist,
                                 feedrate = new_feedrate\<rparr>,
                           new_pos(''e'' \<mapsto> pos_get current_pos ''e'' 0 + extrusion_amount),
                           new_feedrate)))))"

subsection \<open>Rewriting a line\<close>

definition replace_e :: "real \<Rightarrow> string \<Rightarrow> string" where
  "replace_e multiplier num =
     (let original_e = float_of_string num;
          new_e = original_e * multiplier
      in rstrip_char (CHR ''.'') (rstrip_char (CHR ''0'') (CHR ''E'' # format_fixed 6 new_e)))"

definition annotation :: "FlowCompensator \<Rightarrow> real \<Rightarrow> real \<Rightarrow> string" where
  "annotation fc flow_rate multiplier =
     (let material_tag = (if length (tool_profiles fc) > 1
                          then '' T'' @ str_int (active_tool fc) else [])
      in '' ; flow_comp'' @ material_tag @ '': '' @ format_fixed 1 flow_rate
         @ ''mm3/s x'' @ format_fixed 3 multiplier @ [CHR 0x0A])"

definition stat_min :: "real option \<Rightarrow> real \<Rightarrow> real option" where
  "stat_min a v = (case a of None \<Rightarrow> Some v | Some w \<Rightarrow> Some (min w v))"

definition compensate_line ::
  "string \<Rightarrow> move_info \<Rightarrow> FlowCompensator \<Rightarrow> error + (string \<times> FlowCompensator)" where
  "compensate_line line mv fc =
     (case calculate_flow_rate fc (extrusion mv) (distance mv) (feedrate mv) of
        Inl e \<Rightarrow> Inl e
      | Inr flow_rate \<Rightarrow>
          (case map_of (stats fc) (active_tool fc) of
             None \<Rightarrow> Inl KeyError
           | Some ts \<Rightarrow>
               (let multiplier = get_compensation_multiplier fc flow_rate;
                    ts' = ts\<lparr>total_moves := total_moves ts + 1,
                             total_flow := total_flow ts + flow_rate,
                             min_flow := stat_min (min_flow ts) flow_rate,
                             max_flow := max (max_flow ts) flow_rate,
                             min_multiplier := stat_min (min_multiplier ts) multiplier,
                             max_multiplier := max (max_multiplier ts) multiplier\<rparr>
                in if \<bar>multiplier - 1\<bar> < 0.001
                   then Inr (line, fc\<lparr>stats := AList.update (active_tool fc) ts' (stats fc)\<rparr>)
                   else
                     (let ts'' = ts'\<lparr>compensated_moves := compensated_moves ts' + 1\<rparr>;
                          compensated_line = EXTRUSION_sub (replace_e multiplier) line;
                          logging = (case log_changes (fc_config fc) of
                                       None \<Rightarrow> True | Some b \<Rightarrow> b);
                          out = (if logging
                                 then rstrip compensated_line
                                      @ annotation fc flow_rate multiplier
                                 else compensated_line)
                      in Inr (out,
                              fc\<lparr>stats := AList.update (active_tool fc) ts'' (stats fc)\<rparr>)))))"

subsection \<open>The driver loop\<close>

text \<open>
  One pass of the loop in \<open>main\<close> over the lines of the file: a tool-select line
  \<open>T<digits>\<close> switches the active tool when its target is configured (and the
  engine was set up from an extruder mapping); every other line goes through the move
  parser and, when it is an extruding move, through \<open>compensate_line\<close>.
\<close>

definition TOOL_CHANGE_match :: "string \<Rightarrow> int option" where
  "TOOL_CHANGE_match s =
     (case s of
        c # r \<Rightarrow> if c = CHR ''T'' \<and> takeWhile is_digit r \<noteq> []
                 then Some (int (nat_of_digits (takeWhile is_digit r))) else None
      | [] \<Rightarrow> None)"

record driver =
  compensator :: FlowCompensator
  current_pos :: position
  current_feedrate :: real
  output_lines :: "string list"

definition tool_switch :: "bool \<Rightarrow> string \<Rightarrow> FlowCompensator \<Rightarrow> int option" where
  "tool_switch has_multi_material line fc =
     (case TOOL_CHANGE_match (strip line) of
        None \<Rightarrow> None
      | Some new_tool \<Rightarrow>
          if has_multi_material \<and> map_of (tool_profiles fc) new_tool \<noteq> None
          then Some new_tool else None)"

definition process_line :: "bool \<Rightarrow> string \<Rightarrow> driver \<Rightarrow> error + driver" where
  "process_line has_multi_material line d =
     (case tool_switch has_multi_material line (compensator d) of
        Some new_tool \<Rightarrow>
          Inr (d\<lparr>compensator := set_active_tool new_tool (compensator d),
                 output_lines := output_lines d @ [line]\<rparr>)
      | None \<Rightarrow>
          (case parse_move line (current_pos d) (current_feedrate d) of
             (None, new_pos, new_feedrate) \<Rightarrow>
               Inr (d\<lparr>current_pos := new_pos, current_feedrate := new_feedrate,
                      output_lines := output_lines d @ [line]\<rparr>)
           | (Some mv, new_pos, new_feedrate) \<Rightarrow>
               (case compensate_line line mv (compensator d) of
                  Inl e \<Rightarrow> Inl e
                | Inr (compensated_line, fc') \<Rightarrow>
                    Inr \<lparr>compensator = fc', current_pos = new_pos,
                         current_feedrate = new_feedrate,
                         output_lines = output_lines d @ [compensated_line]\<rparr>)))"

fun process_lines :: "bool \<Rightarrow> string list \<Rightarrow> driver \<Rightarrow> error + driver" where
  "process_lines has_multi_material [] d = Inr d"
| "process_lines has_multi_material (line # rest) d =
     (case process_line has_multi_material line d of
        Inl e \<Rightarrow> Inl e
      | Inr d' \<Rightarrow> process_lines has_multi_material rest d')"

subsection \<open>Reachable engine states and the configurations used in examples\<close>

text \<open>
  The states of the engine that its public methods can produce from a fresh
  \<open>FlowCompensator(config)\<close>. A call that raises leaves no new state.
\<close>

inductive reachable :: "FlowCompensator \<Rightarrow> bool" where
  init: "reachable (FlowCompensator_init cfg)"
| load: "reachable fc \<Longrightarrow> load_material_profile material_type tool_num fc = Inr fc'
         \<Longrightarrow> reachable fc'"
| switch: "reachable fc \<Longrightarrow> reachable (set_active_tool tool_num fc)"
| diameter: "reachable fc \<Longrightarrow> reachable (set_filament_diameter dia fc)"
| line: "reachable fc \<Longrightarrow> compensate_line l mv fc = Inr (out, fc') \<Longrightarrow> reachable fc'"

text \<open>The PETG profile and the output settings of the configuration in the test suite.\<close>

definition petg_profile :: profile where
  "petg_profile = \<lparr>profile_name = Some ''PETG'',
     curve_points = Some [(0, 1), (10, 1), (20, 1.025), (30, 1.06)]\<rparr>"

definition test_config :: config where
  "test_config = \<lparr>materials = [(''PETG'', petg_profile)],
     fallback_material = Some ''default'',
     min_compensation = Some 0.8, max_compensation = Some 1.5,
     log_changes = Some True\<rparr>"

text \<open>A configuration without an \<open>output\<close> section, so that the defaults apply, and a
  two-point profile that rises to 1.6 at 60 mm3/s.\<close>

definition steep_profile :: profile where
  "steep_profile = \<lparr>profile_name = Some ''STEEP'', curve_points = Some [(0, 1), (60, 1.6)]\<rparr>"

definition steep_spline :: spline where
  "steep_spline = \<lparr>spline_x = [0, 60], spline_c = [(0, 0, 1 / 100, 1)]\<rparr>"

definition steep_config :: config where
  "steep_config = \<lparr>materials = [(''STEEP'', steep_profile)],
     fallback_material = None, min_compensation = None, max_compensation = None,
     log_changes = Some False\<rparr>"

definition steep_engine :: FlowCompensator where
  "steep_engine = \<lparr>fc_config = steep_config, filament_diameter = None, filament_area = None,
     tool_profiles = [(0, \<lparr>material = ''STEEP'', profile = steep_profile,
                            spline = steep_spline\<rparr>)],
     active_tool = 0, stats = [(0, new_stats)]\<rparr>"

text \<open>A configuration whose safety band is 1.05 to 1.5 and that knows no material.\<close>

definition narrow_config :: config where
  "narrow_config = \<lparr>materials = [], fallback_material = None,
     min_compensation = Some 1.05, max_compensation = Some 1.5, log_changes = None\<rparr>"

text \<open>The state of the loop in \<open>main\<close> before the first line: position 0 on all four axes,
  feed rate 0 and no output.\<close>

definition start_driver :: "FlowCompensator \<Rightarrow> driver" where
  "start_driver fc = \<lparr>compensator = fc,
     current_pos = [''x'' \<mapsto> 0, ''y'' \<mapsto> 0, ''z'' \<mapsto> 0, ''e'' \<mapsto> 0],
     current_feedrate = 0, output_lines = []\<rparr>"

text \<open>A two-point profile that starts at 1.2, so that a move of flow rate 0 (extrusion
  without travel) is compensated; the engine after loading it for tool 0, with
  annotation switched on or off.\<close>

definition prime_profile :: profile where
  "prime_profile = \<lparr>profile_name = Some ''PRIME'', curve_points = Some [(0, 1.2), (60, 1.6)]\<rparr>"

definition prime_spline :: spline where
  "prime_spline = \<lparr>spline_x = [0, 60], spline_c = [(0, 0, 1 / 150, 1.2)]\<rparr>"

definition prime_config :: "bool \<Rightarrow> config" where
  "prime_config logging = \<lparr>materials = [(''PRIME'', prime_profile)],
     fallback_material = None, min_compensation = None, max_compensation = None,
     log_changes = Some logging\<rparr>"

definition prime_engine :: "bool \<Rightarrow> FlowCompensator" where
  "prime_engine logging = \<lparr>fc_config = prime_config logging, filament_diameter = None,
     filament_area = None,
     tool_profiles = [(0, \<lparr>material = ''PRIME'', profile = prime_profile,
                            spline = prime_spline\<rparr>)],
     active_tool = 0, stats = [(0, new_stats)]\<rparr>"

definition prime_move :: move_info where
  "prime_move = \<lparr>extrusion = 2, distance = 0, feedrate = 1800\<rparr>"

text \<open>The engine after loading the steep profile for tool 1 into a fresh engine.\<close>

definition steep_engine_tool1 :: FlowCompensator where
  "steep_engine_tool1 = \<lparr>fc_config = steep_config, filament_diameter = None,
     filament_area = None,
     tool_profiles = [(1, \<lparr>material = ''STEEP'', profile = steep_profile,
                            spline = steep_spline\<rparr>)],
     active_tool = 0, stats = [(0, new_stats), (1, new_stats)]\<rparr>"

text \<open>Whether a text begins with a decimal point followed by a digit, the continuation of
  a number that a shortened field in front of it would absorb.\<close>

definition starts_with_fraction :: "string \<Rightarrow> bool" where
  "starts_with_fraction s =
     (case s of c # d # _ \<Rightarrow> c = CHR ''.'' \<and> is_digit d | _ \<Rightarrow> False)"

text \<open>The move that \<open>parse_move\<close> reads from the line \<open>G1 E2.5.5\<close> before any feed rate
  is set.\<close>

definition fused_move :: move_info where
  "fused_move = \<lparr>extrusion = 2.5, distance = 0, feedrate = 0\<rparr>"

text \<open>A position in the middle of a print.\<close>

definition printing_pos :: position where
  "printing_pos = [''x'' \<mapsto> 100, ''y'' \<mapsto> 100, ''z'' \<mapsto> 0.2, ''e'' \<mapsto> 10]"

section \<open>Properties\<close>

subsection \<open>Two decimal bounds on pi\<close>

lemma cos_taylor_12:
  fixes x :: real
  assumes "0 < x"
  shows "\<exists>r. \<bar>r\<bar> \<le> x ^ 12 / fact 12 \<and> cos x = (\<Sum>m<12. cos_coeff m * x ^ m) + r"
proof -
  obtain t where
    t: "cos x = (\<Sum>m<12. cos_coeff m * x ^ m)
                + (cos (t + 1 / 2 * real 12 * pi) / fact 12) * x ^ 12"
    using Maclaurin_cos_expansion2[of x 12] assms by auto
  let ?r = "(cos (t + 1 / 2 * real 12 * pi) / fact 12) * x ^ 12"
  have "\<bar>?r\<bar> = \<bar>cos (t + 1 / 2 * real 12 * pi)\<bar> * (x ^ 12 / fact 12)"
    by (simp add: abs_mult)
  also have "\<dots> \<le> 1 * (x ^ 12 / fact 12)"
    by (rule mult_right_mono) (use assms in auto)
  finally have "\<bar>?r\<bar> \<le> x ^ 12 / fact 12"
    by simp
  with t show ?thesis
    by blast
qed

lemma cos_partial_sum_12:
  fixes x :: real
  shows "(\<Sum>m<12. cos_coeff m * x ^ m)
         = 1 - x\<^sup>2 / 2 + x ^ 4 / 24 - x ^ 6 / 720 + x ^ 8 / 40320 - x ^ 10 / 3628800"
  by (simp add: cos_coeff_def lessThan_nat_numeral lessThan_Suc fact_numeral)

lemma pi_less_31417: "pi < 3.1417"
proof -
  let ?x = "1.57085 :: real"
  obtain r where r: "\<bar>r\<bar> \<le> ?x ^ 12 / fact 12"
      "cos ?x = (\<Sum>m<12. cos_coeff m * ?x ^ m) + r"
    using cos_taylor_12[of ?x] by auto
  have p: "1 - ?x\<^sup>2 / 2 + ?x ^ 4 / 24 - ?x ^ 6 / 720 + ?x ^ 8 / 40320 - ?x ^ 10 / 3628800
           < - (1 / 100000)"
    by (simp add: power_divide)
  have q: "?x ^ 12 / fact 12 < 1 / 100000"
    by (simp add: power_divide fact_numeral)
  have neg: "cos ?x < 0"
    using r p q unfolding cos_partial_sum_12 by linarith
  have "0 \<le> cos ?x" if "?x \<le> pi / 2"
    by (rule cos_ge_zero) (use that in auto)
  with neg show ?thesis
    by fastforce
qed

lemma pi_greater_31415: "3.1415 < pi"
proof -
  let ?x = "1.57075 :: real"
  obtain r where r: "\<bar>r\<bar> \<le> ?x ^ 12 / fact 12"
      "cos ?x = (\<Sum>m<12. cos_coeff m * ?x ^ m) + r"
    using cos_taylor_12[of ?x] by auto
  have p: "1 - ?x\<^sup>2 / 2 + ?x ^ 4 / 24 - ?x ^ 6 / 720 + ?x ^ 8 / 40320 - ?x ^ 10 / 3628800
           > 1 / 100000"
    by (simp add: power_divide)
  have q: "?x ^ 12 / fact 12 < 1 / 100000"
    by (simp add: power_divide fact_numeral)
  have pos: "0 < cos ?x"
    using r p q unfolding cos_partial_sum_12 by linarith
  have "cos ?x \<le> cos (pi / 2)" if "pi / 2 \<le> ?x"
    by (rule cos_monotone_0_pi_le) (use that pi_ge_two in auto)
  with pos show ?thesis
    by fastforce
qed

subsection \<open>Volumetric flow rate\<close>

lemma area_175: "\<bar>pi * (1.75 / 2)\<^sup>2 - 2.4053\<bar> < (0.0001 :: real)"
proof -
  have b: "pi < 31417 / 10000" "31415 / 10000 < pi"
    using pi_less_31417 pi_greater_31415 by simp_all
  have e: "pi * (1.75 / 2)\<^sup>2 - 2.4053 = pi * (49 / 64) - 24053 / 10000"
    by (simp add: power2_eq_square)
  have "\<bar>pi * (49 / 64) - 24053 / 10000\<bar> < 1 / 10000"
    using b by linarith
  then show ?thesis
    unfolding e by simp
qed

lemma flow_example: "\<bar>5.55 * (pi * (1.75 / 2)\<^sup>2) / 10 * 3000 / 60 - 66.7\<bar> < (0.05 :: real)"
proof -
  have b: "pi < 31417 / 10000" "31415 / 10000 < pi"
    using pi_less_31417 pi_greater_31415 by simp_all
  have e: "5.55 * (pi * (1.75 / 2)\<^sup>2) / 10 * 3000 / 60 - 66.7 = pi * (5439 / 256) - 667 / 10"
    by (simp add: power2_eq_square)
  have "\<bar>pi * (5439 / 256) - 667 / 10\<bar> < 5 / 100"
    using b by linarith
  then show ?thesis
    unfolding e by simp
qed

text \<open>
  Claim C3. A move of distance 0 has flow rate 0 whatever the extrusion and the feed
  rate are (even before a diameter is set). For any other distance, once
  \<open>set_filament_diameter\<close> has stored the area \<open>pi * (diameter / 2)\<^sup>2\<close>, the flow
  rate is \<open>extrusion * area / distance * feedrate / 60\<close>. With diameter 1.75 the area
  is within 0.0001 of 2.4053, and the flow rate of extrusion 5.55 over distance 10 at
  feed rate 3000 is within 0.05 of 66.7.
\<close>

theorem calculate_flow_rate_formula:
  "calculate_flow_rate fc e 0 f = Inr 0
   \<and> filament_area (set_filament_diameter dia fc) = Some (pi * (dia / 2)\<^sup>2)
   \<and> (d \<noteq> 0 \<longrightarrow>
        calculate_flow_rate (set_filament_diameter dia fc) e d f
        = Inr (e * (pi * (dia / 2)\<^sup>2) / d * f / 60))
   \<and> (\<exists>a. filament_area (set_filament_diameter 1.75 fc) = Some a \<and> \<bar>a - 2.4053\<bar> < 0.0001)
   \<and> (\<exists>q. calculate_flow_rate (set_filament_diameter 1.75 fc) 5.55 10 3000 = Inr q
            \<and> \<bar>q - 66.7\<bar> < 0.05)"
proof -
  have 1: "calculate_flow_rate fc e 0 f = Inr 0"
    by (simp add: calculate_flow_rate_def)
  have 2: "filament_area (set_filament_diameter dia fc) = Some (pi * (dia / 2)\<^sup>2)" for dia
    by (simp add: set_filament_diameter_def)
  have 3: "calculate_flow_rate (set_filament_diameter dia fc) e d f
           = Inr (e * (pi * (dia / 2)\<^sup>2) / d * f / 60)" if "d \<noteq> 0" for dia e d f
    using that by (simp add: calculate_flow_rate_def set_filament_diameter_def)
  have 4: "\<exists>a. filament_area (set_filament_diameter 1.75 fc) = Some a \<and> \<bar>a - 2.4053\<bar> < 0.0001"
  proof (intro exI conjI)
    show "filament_area (set_filament_diameter 1.75 fc) = Some (pi * (1.75 / 2)\<^sup>2)"
      by (rule 2)
    show "\<bar>pi * (1.75 / 2)\<^sup>2 - 2.4053\<bar> < (0.0001 :: real)"
      by (rule area_175)
  qed
  have 5: "\<exists>q. calculate_flow_rate (set_filament_diameter 1.75 fc) 5.55 10 3000 = Inr q
            \<and> \<bar>q - 66.7\<bar> < 0.05"
  proof (intro exI conjI)
    show "calculate_flow_rate (set_filament_diameter 1.75 fc) 5.55 10 3000
          = Inr (5.55 * (pi * (1.75 / 2)\<^sup>2) / 10 * 3000 / 60)"
      by (rule 3) simp
    show "\<bar>5.55 * (pi * (1.75 / 2)\<^sup>2) / 10 * 3000 / 60 - 66.7\<bar> < (0.05 :: real)"
      by (rule flow_example)
  qed
  show ?thesis
    using 1 2 3 4 5 by blast
qed

theorem calculate_flow_rate_formula_witness:
  "(10 :: real) \<noteq> 0
   \<and> calculate_flow_rate (set_filament_diameter 2 (FlowCompensator_init test_config)) 3 10 1200
     = Inr (6 * pi)"
  using calculate_flow_rate_formula
    [of "FlowCompensator_init test_config" 3 1200 2 10]
  by simp

subsection \<open>The interpolant at its first control point\<close>

lemma hermite_piece_left: "cubic (hermite_piece x0 x1 y0 y1 d0 d1) 0 = y0"
  by (simp add: cubic_def hermite_piece_def Let_def)

lemma ppoly_eval_hd:
  assumes "2 \<le> length xs" "sorted_wrt (<) xs" "length ys = length xs" "length ds = length xs"
  shows "ppoly_eval xs (hermite_coeffs xs ys ds) (hd xs) = hd ys"
proof -
  obtain x0 x1 xr where xs: "xs = x0 # x1 # xr"
    using assms(1) by (cases xs; cases "tl xs") auto
  obtain y0 y1 yr where ys: "ys = y0 # y1 # yr"
    using assms(1,3) by (cases ys; cases "tl ys") auto
  obtain d0 d1 dr where ds: "ds = d0 # d1 # dr"
    using assms(1,4) by (cases ds; cases "tl ds") auto
  have "x0 < x1"
    using assms(2) xs by simp
  then show ?thesis
    by (cases "hermite_coeffs (x1 # xr) (y1 # yr) (d1 # dr)")
      (simp_all add: xs ys ds hermite_piece_left)
qed

lemma length_diffs: "length (diffs xs) = length xs - 1"
  by (induction xs rule: diffs.induct) auto

lemma length_slopes: "length (slopes xs ys) = min (length xs) (length ys)"
  by (induction xs ys rule: slopes.induct) auto

lemma length_interior_slopes:
  "length hs = length ms \<Longrightarrow> length (interior_slopes hs ms) = length hs - 1"
  by (induction hs ms rule: interior_slopes.induct) auto

lemma length_find_derivatives:
  assumes "2 \<le> length xs" "length ys = length xs"
  shows "length (find_derivatives xs ys) = length xs"
  using assms
  by (auto simp: find_derivatives_def Let_def length_interior_slopes length_slopes length_diffs)

lemma PchipInterpolator_Inr:
  assumes "PchipInterpolator xs ys = Inr s"
  shows "2 \<le> length xs \<and> length ys = length xs \<and> sorted_wrt (<) xs \<and> spline_x s = xs
         \<and> spline_call s (hd xs) = hd ys"
proof -
  from assms have a: "2 \<le> length xs" "length ys = length xs" "sorted_wrt (<) xs"
    and s: "s = \<lparr>spline_x = xs, spline_c = hermite_coeffs xs ys (find_derivatives xs ys)\<rparr>"
    by (auto simp: PchipInterpolator_def split: if_splits)
  have l: "length (find_derivatives xs ys) = length xs"
    using a by (simp add: length_find_derivatives)
  show ?thesis
    using a l by (simp add: s spline_call_def ppoly_eval_hd)
qed

lemma PchipInterpolator_succeeds:
  assumes "2 \<le> length xs" "length ys = length xs" "sorted_wrt (<) xs"
  shows "\<exists>s. PchipInterpolator xs ys = Inr s"
  using assms by (simp add: PchipInterpolator_def)

subsection \<open>Building a curve from a profile\<close>

lemma strictly_sorted_keys:
  "sorted_wrt (<) (map fst (sort_key fst cps)) \<longleftrightarrow> distinct (map fst cps)"
proof -
  have "mset (map fst (sort_key fst cps)) = mset (map fst cps)"
    by simp
  then have "distinct (map fst (sort_key fst cps)) \<longleftrightarrow> distinct (map fst cps)"
    by (rule mset_eq_imp_distinct_iff)
  then show ?thesis
    by (simp add: strict_sorted_iff)
qed

lemma build_spline_unfold:
  assumes "curve_points p = Some cps" "2 \<le> length cps"
  shows "build_spline_for_profile p
         = PchipInterpolator (map fst (sort_key fst cps)) (map snd (sort_key fst cps))"
  using assms by (simp add: build_spline_for_profile_def Let_def)

lemma build_spline_Inr:
  assumes "build_spline_for_profile p = Inr s" "curve_points p = Some cps"
  shows "2 \<le> length cps \<and> distinct (map fst cps)
         \<and> spline_x s = map fst (sort_key fst cps)
         \<and> spline_call s (fst (hd (sort_key fst cps))) = snd (hd (sort_key fst cps))"
proof -
  let ?ps = "sort_key fst cps"
  have len: "2 \<le> length cps"
    using assms by (auto simp: build_spline_for_profile_def Let_def split: if_splits)
  then have ne: "?ps \<noteq> []"
    by (metis length_sort list.size(3) not_numeral_le_zero)
  have "PchipInterpolator (map fst ?ps) (map snd ?ps) = Inr s"
    using assms len by (simp add: build_spline_unfold)
  from PchipInterpolator_Inr[OF this] ne show ?thesis
    using len by (simp add: strictly_sorted_keys hd_map)
qed

lemma sort_key_hd_least:
  assumes "(x_min, y_min) \<in> set cps" "\<forall>q\<in>set cps. x_min \<le> fst q" "distinct (map fst cps)"
  shows "hd (sort_key fst cps) = (x_min, y_min)"
proof -
  let ?ps = "sort_key fst cps"
  obtain a rest where ps: "?ps = a # rest"
    using assms(1) by (cases ?ps) (auto dest: arg_cong[where f = set])
  have sets: "set ?ps = set cps"
    by simp
  have "a \<in> set cps"
    using ps sets by (metis list.set_intros(1))
  then have 1: "x_min \<le> fst a"
    using assms(2) by blast
  have "sorted (map fst ?ps)"
    by (rule sorted_sort_key)
  then have "\<forall>q\<in>set ?ps. fst a \<le> fst q"
    unfolding ps by auto
  then have 2: "fst a \<le> x_min"
    using assms(1) sets by fastforce
  have "inj_on fst (set cps)"
    using assms(3) by (simp add: distinct_map)
  moreover have "fst a = fst (x_min, y_min)"
    using 1 2 by simp
  ultimately have "a = (x_min, y_min)"
    using \<open>a \<in> set cps\<close> assms(1) by (rule inj_onD)
  then show ?thesis
    by (simp add: ps)
qed

lemma sort_key_last_greatest:
  assumes "(x_max, y_max) \<in> set cps" "\<forall>q\<in>set cps. fst q \<le> x_max" "distinct (map fst cps)"
  shows "last (sort_key fst cps) = (x_max, y_max)"
proof -
  let ?ps = "sort_key fst cps"
  have sets: "set ?ps = set cps"
    by simp
  have ne: "?ps \<noteq> []"
    using assms(1) sets by fastforce
  then obtain front a where ps: "?ps = front @ [a]"
    by (metis append_butlast_last_id)
  have "a \<in> set cps"
    using ps sets by (metis in_set_conv_decomp)
  then have 1: "fst a \<le> x_max"
    using assms(2) by blast
  have "sorted (map fst ?ps)"
    by (rule sorted_sort_key)
  then have "\<forall>q\<in>set ?ps. fst q \<le> fst a"
    unfolding ps by (auto simp: sorted_append)
  then have 2: "x_max \<le> fst a"
    using assms(1) sets by fastforce
  have "inj_on fst (set cps)"
    using assms(3) by (simp add: distinct_map)
  moreover have "fst a = fst (x_max, y_max)"
    using 1 2 by simp
  ultimately have "a = (x_max, y_max)"
    using \<open>a \<in> set cps\<close> assms(1) by (rule inj_onD)
  then show ?thesis
    by (simp add: ps)
qed

subsection \<open>What each method changes\<close>

lemma init_stats_frame:
  "tool_profiles (init_stats_for_tool t fc) = tool_profiles fc"
  "active_tool (init_stats_for_tool t fc) = active_tool fc"
  "fc_config (init_stats_for_tool t fc) = fc_config fc"
  "filament_area (init_stats_for_tool t fc) = filament_area fc"
  by (simp_all add: init_stats_for_tool_def)

lemma init_stats_lookup:
  "map_of (stats (init_stats_for_tool t fc)) u
   = (if u = t \<and> map_of (stats fc) t = None then Some new_stats else map_of (stats fc) u)"
  by (simp add: init_stats_for_tool_def update_conv')

lemma load_material_profile_Inr:
  assumes "load_material_profile material_type tool_num fc = Inr fc'"
  shows "\<exists>name p s. build_spline_for_profile p = Inr s
           \<and> fc' = init_stats_for_tool tool_num
                  (fc\<lparr>tool_profiles :=
                        AList.update tool_num \<lparr>material = name, profile = p, spline = s\<rparr>
                          (tool_profiles fc)\<rparr>)"
  using assms
  by (auto simp: load_material_profile_def Let_def split: if_splits option.splits sum.splits)

lemma compensate_line_Inr:
  assumes "compensate_line l mv fc = Inr (out, fc')"
  shows "\<exists>ts ts'. map_of (stats fc) (active_tool fc) = Some (ts :: tool_stats)
           \<and> fc' = fc\<lparr>stats := AList.update (active_tool fc) ts' (stats fc)\<rparr>"
  using assms
  by (auto simp: compensate_line_def Let_def split: if_splits option.splits sum.splits)

lemma reachable_built:
  assumes "reachable fc" "map_of (tool_profiles fc) t = Some tp"
  shows "build_spline_for_profile (profile tp) = Inr (spline tp)"
  using assms
proof (induction arbitrary: t tp rule: reachable.induct)
  case (init cfg)
  then show ?case
    by (simp add: FlowCompensator_init_def init_stats_frame)
next
  case (load fc material_type tool_num fc')
  obtain name p s where b: "build_spline_for_profile p = Inr s"
    and fc': "fc' = init_stats_for_tool tool_num
                (fc\<lparr>tool_profiles :=
                      AList.update tool_num \<lparr>material = name, profile = p, spline = s\<rparr>
                        (tool_profiles fc)\<rparr>)"
    using load_material_profile_Inr[OF load.hyps(2)] by blast
  show ?case
  proof (cases "t = tool_num")
    case True
    with load.prems have "tp = \<lparr>material = name, profile = p, spline = s\<rparr>"
      by (simp add: fc' init_stats_frame update_conv')
    with b show ?thesis
      by simp
  next
    case False
    with load.prems have "map_of (tool_profiles fc) t = Some tp"
      by (simp add: fc' init_stats_frame update_conv')
    then show ?thesis
      by (rule load.IH)
  qed
next
  case (switch fc tool_num)
  then show ?case
    by (simp add: set_active_tool_def)
next
  case (diameter fc dia)
  then show ?case
    by (simp add: set_filament_diameter_def)
next
  case (line fc l mv out fc')
  obtain ts ts' :: tool_stats where "fc' = fc\<lparr>stats := AList.update (active_tool fc) ts' (stats fc)\<rparr>"
    using compensate_line_Inr[OF line.hyps(2)] by blast
  with line.prems line.IH show ?case
    by simp
qed

subsection \<open>The multiplier at and beyond the ends of the curve\<close>

lemma multiplier_at_ends:
  assumes tp: "map_of (tool_profiles fc) (active_tool fc) = Some tp"
    and built: "build_spline_for_profile (profile tp) = Inr (spline tp)"
    and cps: "curve_points (profile tp) = Some cps"
    and lo: "(x_min, y_min) \<in> set cps" "\<forall>q\<in>set cps. x_min \<le> fst q"
    and hi: "(x_max, y_max) \<in> set cps" "\<forall>q\<in>set cps. fst q \<le> x_max"
  shows "flow \<le> x_min \<longrightarrow>
           get_compensation_multiplier fc flow = max (min_comp fc) (min (max_comp fc) y_min)"
    and "x_max \<le> flow \<longrightarrow>
           get_compensation_multiplier fc flow
           = max (min_comp fc) (min (max_comp fc) (spline_call (spline tp) x_max))"
proof -
  let ?ps = "sort_key fst cps"
  let ?s = "spline tp"
  from build_spline_Inr[OF built cps]
  have d: "distinct (map fst cps)" and len: "2 \<le> length cps"
    and x: "spline_x ?s = map fst ?ps"
    and c0: "spline_call ?s (fst (hd ?ps)) = snd (hd ?ps)"
    by simp_all
  have ne: "?ps \<noteq> []"
    using lo(1) by (auto dest: arg_cong[where f = set])
  have h: "hd ?ps = (x_min, y_min)"
    using lo d by (rule sort_key_hd_least)
  have l: "last ?ps = (x_max, y_max)"
    using hi d by (rule sort_key_last_greatest)
  have xmin: "hd (spline_x ?s) = x_min" and xmax: "last (spline_x ?s) = x_max"
    using ne h l by (simp_all add: x hd_map last_map)
  have ord: "x_min \<le> x_max"
    using lo(1) hi(2) by fastforce
  have e0: "spline_call ?s x_min = y_min"
    using c0 h by simp
  show "flow \<le> x_min \<longrightarrow>
           get_compensation_multiplier fc flow = max (min_comp fc) (min (max_comp fc) y_min)"
    using ord e0 by (auto simp: get_compensation_multiplier_def tp Let_def xmin xmax)
  show "x_max \<le> flow \<longrightarrow>
           get_compensation_multiplier fc flow
           = max (min_comp fc) (min (max_comp fc) (spline_call (spline tp) x_max))"
    using ord by (auto simp: get_compensation_multiplier_def tp Let_def xmin xmax)
qed

text \<open>
  Claim C1, as the code has it. In every reachable state whose active tool is
  configured with control points of least flow rate \<open>x_min\<close> (multiplier \<open>y_min\<close>) and
  greatest flow rate \<open>x_max\<close>, the multiplier for a flow rate at or below \<open>x_min\<close> is
  \<open>y_min\<close> clamped into the safety band, so exactly \<open>y_min\<close> when \<open>y_min\<close> lies inside the
  band. For every flow rate at or above \<open>x_max\<close> the multiplier is the same as at
  \<open>x_max\<close>: the value the interpolant returns at \<open>x_max\<close>, clamped into the safety band.
\<close>

theorem multiplier_clamped_at_curve_ends:
  assumes "reachable fc"
    and "map_of (tool_profiles fc) (active_tool fc) = Some tp"
    and "curve_points (profile tp) = Some cps"
    and "(x_min, y_min) \<in> set cps" "\<forall>q\<in>set cps. x_min \<le> fst q"
    and "(x_max, y_max) \<in> set cps" "\<forall>q\<in>set cps. fst q \<le> x_max"
  shows "(flow \<le> x_min \<longrightarrow>
            get_compensation_multiplier fc flow = max (min_comp fc) (min (max_comp fc) y_min))
       \<and> (flow \<le> x_min \<and> min_comp fc \<le> y_min \<and> y_min \<le> max_comp fc \<longrightarrow>
            get_compensation_multiplier fc flow = y_min)
       \<and> (x_max \<le> flow \<longrightarrow>
            get_compensation_multiplier fc flow = get_compensation_multiplier fc x_max)
       \<and> (x_max \<le> flow \<longrightarrow>
            get_compensation_multiplier fc flow
            = max (min_comp fc) (min (max_comp fc) (spline_call (spline tp) x_max)))"
proof -
  have built: "build_spline_for_profile (profile tp) = Inr (spline tp)"
    using assms(1,2) by (rule reachable_built)
  note ends = multiplier_at_ends[OF assms(2) built assms(3-7)]
  have 1: "flow \<le> x_min \<longrightarrow>
            get_compensation_multiplier fc flow = max (min_comp fc) (min (max_comp fc) y_min)"
    by (rule ends(1))
  have 2: "x_max \<le> flow \<longrightarrow>
            get_compensation_multiplier fc flow
            = max (min_comp fc) (min (max_comp fc) (spline_call (spline tp) x_max))"
    by (rule ends(2))
  have 3: "get_compensation_multiplier fc x_max
           = max (min_comp fc) (min (max_comp fc) (spline_call (spline tp) x_max))"
    using ends(2)[of x_max] by simp
  show ?thesis
    using 1 2 3 by auto
qed

lemma steep_load:
  "load_material_profile (Some ''STEEP'') 0 (FlowCompensator_init steep_config) = Inr steep_engine"
  by (simp add: load_material_profile_def FlowCompensator_init_def init_stats_for_tool_def
      steep_config_def steep_profile_def steep_engine_def steep_spline_def get_material_profile_def
      falsy_profile_def profile_empty_def build_spline_for_profile_def PchipInterpolator_def
      find_derivatives_def hermite_piece_def upper_def upper_char_def Let_def)

lemma steep_reachable: "reachable steep_engine"
  using reachable.init reachable.load steep_load by blast

lemma steep_multiplier: "get_compensation_multiplier steep_engine 60 = 1.5"
  by (simp add: get_compensation_multiplier_def steep_engine_def steep_spline_def spline_call_def
      cubic_def min_comp_def max_comp_def steep_config_def)

theorem multiplier_clamped_at_curve_ends_witness:
  "reachable steep_engine
   \<and> map_of (tool_profiles steep_engine) (active_tool steep_engine)
     = Some \<lparr>material = ''STEEP'', profile = steep_profile, spline = steep_spline\<rparr>
   \<and> curve_points steep_profile = Some [(0, 1), (60, 1.6)]
   \<and> get_compensation_multiplier steep_engine (-5) = 1
   \<and> get_compensation_multiplier steep_engine 75 = get_compensation_multiplier steep_engine 60
   \<and> get_compensation_multiplier steep_engine 75 = 1.5"
proof -
  let ?tp = "\<lparr>material = ''STEEP'', profile = steep_profile, spline = steep_spline\<rparr>"
  have 1: "map_of (tool_profiles steep_engine) (active_tool steep_engine) = Some ?tp"
    by (simp add: steep_engine_def)
  have 2: "curve_points (profile ?tp) = Some [(0, 1), (60, 1.6)]"
    by (simp add: steep_profile_def)
  have b: "min_comp steep_engine = 0.8" "max_comp steep_engine = 1.5"
    by (simp_all add: min_comp_def max_comp_def steep_engine_def steep_config_def)
  have "get_compensation_multiplier steep_engine (-5) = 1"
    using multiplier_clamped_at_curve_ends
      [OF steep_reachable 1 2, of 0 1 60 "1.6" "-5"]
    by (simp add: b)
  moreover have "get_compensation_multiplier steep_engine 75
                 = get_compensation_multiplier steep_engine 60"
    using multiplier_clamped_at_curve_ends
      [OF steep_reachable 1 2, of 0 1 60 "1.6" 75]
    by simp
  ultimately show ?thesis
    using steep_reachable 1 2 steep_multiplier by simp
qed

text \<open>
  The claim as stated fails where a control multiplier lies outside the safety band: the
  profile with control points (0, 1) and (60, 1.6), loaded under the default band 0.8 to
  1.5, gives 1.5 and not 1.6 at flow rate 60, the greatest control flow rate.
\<close>

theorem multiplier_at_curve_end_counterexample:
  "load_material_profile (Some ''STEEP'') 0 (FlowCompensator_init steep_config) = Inr steep_engine
   \<and> map_of (tool_profiles steep_engine) (active_tool steep_engine)
     = Some \<lparr>material = ''STEEP'', profile = steep_profile, spline = steep_spline\<rparr>
   \<and> curve_points steep_profile = Some [(0, 1), (60, 1.6)]
   \<and> get_compensation_multiplier steep_engine 60 = 1.5
   \<and> get_compensation_multiplier steep_engine 60 \<noteq> 1.6"
  using steep_load steep_multiplier
  by (simp add: steep_engine_def steep_profile_def)

subsection \<open>The safety band\<close>

text \<open>
  Claim C2, as the code has it. When the active tool is configured and the configured
  band is not empty (\<open>min_compensation \<le> max_compensation\<close>), the multiplier lies in the
  band for every flow rate, whatever the interpolant returns. When the active tool is
  not configured the multiplier is 1, returned without clamping. With the default band
  0.8 to 1.5 the multiplier lies in the band in every state.
\<close>

theorem multiplier_in_safety_band:
  "(map_of (tool_profiles fc) (active_tool fc) \<noteq> None \<and> min_comp fc \<le> max_comp fc \<longrightarrow>
      min_comp fc \<le> get_compensation_multiplier fc flow
      \<and> get_compensation_multiplier fc flow \<le> max_comp fc)
   \<and> (map_of (tool_profiles fc) (active_tool fc) = None \<longrightarrow>
        get_compensation_multiplier fc flow = 1)
   \<and> (min_compensation (fc_config fc) = None \<and> max_compensation (fc_config fc) = None \<longrightarrow>
        0.8 \<le> get_compensation_multiplier fc flow
        \<and> get_compensation_multiplier fc flow \<le> 1.5)"
  by (auto simp: get_compensation_multiplier_def Let_def min_comp_def max_comp_def
      split: option.splits)

theorem multiplier_in_safety_band_witness:
  "map_of (tool_profiles steep_engine) (active_tool steep_engine) \<noteq> None
   \<and> min_comp steep_engine \<le> max_comp steep_engine
   \<and> min_compensation (fc_config steep_engine) = None
   \<and> max_compensation (fc_config steep_engine) = None
   \<and> 0.8 \<le> get_compensation_multiplier steep_engine 1000
   \<and> get_compensation_multiplier steep_engine 1000 \<le> max_comp steep_engine
   \<and> map_of (tool_profiles (FlowCompensator_init narrow_config))
        (active_tool (FlowCompensator_init narrow_config)) = None
   \<and> get_compensation_multiplier (FlowCompensator_init narrow_config) 1000 = 1"
  using multiplier_in_safety_band [of steep_engine 1000]
    multiplier_in_safety_band [of "FlowCompensator_init narrow_config" 1000]
  by (simp add: steep_engine_def steep_config_def min_comp_def max_comp_def
      FlowCompensator_init_def init_stats_for_tool_def)

text \<open>
  The claim as stated fails in a state whose active tool is not configured when 1 is
  outside the configured band: with the band 1.05 to 1.5 a fresh engine returns 1.
\<close>

theorem multiplier_in_safety_band_counterexample:
  "min_comp (FlowCompensator_init narrow_config) = 1.05
   \<and> max_comp (FlowCompensator_init narrow_config) = 1.5
   \<and> get_compensation_multiplier (FlowCompensator_init narrow_config) 5 = 1
   \<and> \<not> min_comp (FlowCompensator_init narrow_config)
          \<le> get_compensation_multiplier (FlowCompensator_init narrow_config) 5"
  by (simp add: get_compensation_multiplier_def FlowCompensator_init_def
      init_stats_for_tool_def narrow_config_def min_comp_def max_comp_def)

subsection \<open>Rejected and accepted profiles\<close>

lemma build_spline_same_points:
  assumes "mset cps' = mset cps" "distinct (map fst cps)"
    and "curve_points p = Some cps" "curve_points p' = Some cps'"
  shows "build_spline_for_profile p' = build_spline_for_profile p"
proof -
  have "distinct (map fst cps')"
    using assms(1,2) by (metis mset_eq_imp_distinct_iff mset_map)
  then have inj: "inj_on fst (set cps')"
    by (simp add: distinct_map)
  have "mset cps' = mset (sort_key fst cps)"
    using assms(1) by simp
  then have "sort_key fst cps' = sort_key fst cps"
    using inj by (rule sort_key_inj_key_eq) (rule sorted_sort_key)
  moreover have "length cps' = length cps"
    using assms(1) by (rule mset_eq_length)
  ultimately show ?thesis
    using assms(3,4) by (simp add: build_spline_for_profile_def)
qed

text \<open>
  Claim C8. Building a curve raises \<open>ValueError\<close> when the profile has fewer than two
  control points (or no \<open>curve_points\<close> entry) and when two control points have the same
  flow rate. For at least two control points with distinct flow rates it succeeds, and
  the curve is the interpolant of the points sorted ascending by flow rate: its knots
  are the sorted flow rates. A profile with the same control points in another order
  builds the same curve.
\<close>

theorem build_spline_errors_and_order:
  "(curve_points p = None \<longrightarrow> build_spline_for_profile p = Inl ValueError)
   \<and> (curve_points p = Some cps \<and> length cps < 2 \<longrightarrow>
        build_spline_for_profile p = Inl ValueError)
   \<and> (curve_points p = Some cps \<and> \<not> distinct (map fst cps) \<longrightarrow>
        build_spline_for_profile p = Inl ValueError)
   \<and> (curve_points p = Some cps \<and> 2 \<le> length cps \<and> distinct (map fst cps) \<longrightarrow>
        (\<exists>s. build_spline_for_profile p = Inr s
             \<and> PchipInterpolator (map fst (sort_key fst cps)) (map snd (sort_key fst cps)) = Inr s
             \<and> spline_x s = sort (map fst cps)
             \<and> sorted_wrt (<) (spline_x s)))
   \<and> (curve_points p = Some cps \<and> distinct (map fst cps)
        \<and> curve_points p' = Some cps' \<and> mset cps' = mset cps \<longrightarrow>
        build_spline_for_profile p' = build_spline_for_profile p)"
proof -
  have 1: "build_spline_for_profile p = Inl ValueError" if "curve_points p = None"
    using that by (simp add: build_spline_for_profile_def)
  have 2: "build_spline_for_profile p = Inl ValueError"
    if "curve_points p = Some cps" "length cps < 2"
    using that by (simp add: build_spline_for_profile_def)
  have 3: "build_spline_for_profile p = Inl ValueError"
    if "curve_points p = Some cps" "\<not> distinct (map fst cps)"
    using that
    by (simp add: build_spline_for_profile_def Let_def PchipInterpolator_def strictly_sorted_keys)
  have 4: "\<exists>s. build_spline_for_profile p = Inr s
             \<and> PchipInterpolator (map fst (sort_key fst cps)) (map snd (sort_key fst cps)) = Inr s
             \<and> spline_x s = sort (map fst cps)
             \<and> sorted_wrt (<) (spline_x s)"
    if c: "curve_points p = Some cps" and l: "2 \<le> length cps" and d: "distinct (map fst cps)"
  proof -
    let ?ps = "sort_key fst cps"
    have st: "sorted_wrt (<) (map fst ?ps)"
      using d by (simp add: strictly_sorted_keys)
    obtain s where s: "PchipInterpolator (map fst ?ps) (map snd ?ps) = Inr s"
      using PchipInterpolator_succeeds[of "map fst ?ps" "map snd ?ps"] l st by auto
    have x: "spline_x s = map fst ?ps"
      using PchipInterpolator_Inr[OF s] by simp
    have "sort (map fst cps) = map fst ?ps"
      by (rule properties_for_sort) simp_all
    with s x st c l show ?thesis
      by (simp add: build_spline_unfold)
  qed
  have 5: "build_spline_for_profile p' = build_spline_for_profile p"
    if "curve_points p = Some cps" "distinct (map fst cps)"
      "curve_points p' = Some cps'" "mset cps' = mset cps"
    using that build_spline_same_points by blast
  show ?thesis
    using 1 2 3 4 5 by blast
qed

theorem build_spline_errors_and_order_witness:
  "curve_points petg_profile = Some [(0, 1), (10, 1), (20, 1.025), (30, 1.06)]
   \<and> distinct (map fst [(0 :: real, 1 :: real), (10, 1), (20, 1.025), (30, 1.06)])
   \<and> mset [(20, 1.025), (0, 1), (30, 1.06), (10 :: real, 1 :: real)]
       = mset [(0, 1), (10, 1), (20, 1.025), (30, 1.06)]
   \<and> (\<exists>s. build_spline_for_profile petg_profile = Inr s \<and> spline_x s = [0, 10, 20, 30])
   \<and> build_spline_for_profile
        (petg_profile\<lparr>curve_points := Some [(20, 1.025), (0, 1), (30, 1.06), (10, 1)]\<rparr>)
       = build_spline_for_profile petg_profile
   \<and> build_spline_for_profile (petg_profile\<lparr>curve_points := Some [(5, 1)]\<rparr>) = Inl ValueError
   \<and> build_spline_for_profile (petg_profile\<lparr>curve_points := Some [(5, 1), (5, 1.1)]\<rparr>)
       = Inl ValueError
   \<and> build_spline_for_profile (petg_profile\<lparr>curve_points := None\<rparr>) = Inl ValueError"
proof -
  let ?cps = "[(0 :: real, 1 :: real), (10, 1), (20, 1.025), (30, 1.06)]"
  let ?cps' = "[(20, 1.025), (0, 1), (30, 1.06), (10 :: real, 1 :: real)]"
  have c: "curve_points petg_profile = Some ?cps"
    by (simp add: petg_profile_def)
  have d: "distinct (map fst ?cps)"
    by simp
  have m: "mset ?cps' = mset ?cps"
    by (simp add: add.commute add.left_commute)
  have a: "\<exists>s. build_spline_for_profile petg_profile = Inr s \<and> spline_x s = [0, 10, 20, 30]"
    using build_spline_errors_and_order [of petg_profile ?cps] c d
    by auto
  have b: "build_spline_for_profile (petg_profile\<lparr>curve_points := Some ?cps'\<rparr>)
           = build_spline_for_profile petg_profile"
    using build_spline_errors_and_order
      [of petg_profile ?cps "petg_profile\<lparr>curve_points := Some ?cps'\<rparr>" ?cps'] c d m
    by simp
  have e1: "build_spline_for_profile (petg_profile\<lparr>curve_points := Some [(5, 1)]\<rparr>)
            = Inl ValueError"
    using build_spline_errors_and_order
      [of "petg_profile\<lparr>curve_points := Some [(5, 1)]\<rparr>" "[(5, 1)]"]
    by simp
  have e2: "build_spline_for_profile (petg_profile\<lparr>curve_points := Some [(5, 1), (5, 1.1)]\<rparr>)
            = Inl ValueError"
    using build_spline_errors_and_order
      [of "petg_profile\<lparr>curve_points := Some [(5, 1), (5, 1.1)]\<rparr>" "[(5, 1), (5, 1.1)]"]
    by simp
  have e3: "build_spline_for_profile (petg_profile\<lparr>curve_points := None\<rparr>) = Inl ValueError"
    using build_spline_errors_and_order [of "petg_profile\<lparr>curve_points := None\<rparr>"]
    by simp
  show ?thesis
    using c d m a b e1 e2 e3 by blast
qed

subsection \<open>Statistics records and the active tool\<close>

lemma compensate_line_no_stats:
  assumes "map_of (stats fc) (active_tool fc) = None"
  shows "\<exists>e. compensate_line l mv fc = Inl e"
  using assms by (auto simp: compensate_line_def split: sum.splits)

lemma compensate_line_KeyError:
  assumes "map_of (stats fc) (active_tool fc) = None"
    and "distance mv = 0 \<or> filament_area fc \<noteq> None"
  shows "compensate_line l mv fc = Inl KeyError"
  using assms by (auto simp: compensate_line_def calculate_flow_rate_def split: sum.splits)

lemma reachable_stats_configured:
  assumes "reachable fc" "map_of (stats fc) t \<noteq> None" "t \<noteq> 0"
  shows "map_of (tool_profiles fc) t \<noteq> None"
  using assms
proof (induction rule: reachable.induct)
  case (init cfg)
  then show ?case
    by (simp add: FlowCompensator_init_def init_stats_lookup split: if_splits)
next
  case (load fc material_type tool_num fc')
  obtain name p s where
    fc': "fc' = init_stats_for_tool tool_num
                (fc\<lparr>tool_profiles :=
                      AList.update tool_num \<lparr>material = name, profile = p, spline = s\<rparr>
                        (tool_profiles fc)\<rparr>)"
    using load_material_profile_Inr[OF load.hyps(2)] by blast
  show ?case
  proof (cases "t = tool_num")
    case True
    then show ?thesis
      by (simp add: fc' init_stats_frame update_conv')
  next
    case False
    with load.prems have "map_of (stats fc) t \<noteq> None"
      by (simp add: fc' init_stats_lookup)
    with load.IH load.prems False show ?thesis
      by (simp add: fc' init_stats_frame update_conv')
  qed
next
  case (switch fc tool_num)
  then show ?case
    by (simp add: set_active_tool_def)
next
  case (diameter fc dia)
  then show ?case
    by (simp add: set_filament_diameter_def)
next
  case (line fc l mv out fc')
  obtain ts ts' :: tool_stats where ts: "map_of (stats fc) (active_tool fc) = Some ts"
    and fc': "fc' = fc\<lparr>stats := AList.update (active_tool fc) ts' (stats fc)\<rparr>"
    using compensate_line_Inr[OF line.hyps(2)] by blast
  have "map_of (stats fc) t \<noteq> None"
    using line.prems(1) ts by (auto simp: fc' update_conv' split: if_splits)
  with line.IH line.prems show ?case
    by (simp add: fc')
qed

lemma load_material_profile_stats:
  assumes "load_material_profile material_type t fc = Inr fc'"
  shows "map_of (stats fc') u
         = (if u = t \<and> map_of (stats fc) t = None then Some new_stats else map_of (stats fc) u)"
  using load_material_profile_Inr[OF assms] by (auto simp: init_stats_lookup)

lemma compensate_line_stats_dom:
  assumes "compensate_line l mv fc = Inr (out, fc')"
  shows "(map_of (stats fc') u \<noteq> None) = (map_of (stats fc) u \<noteq> None)"
proof -
  obtain ts ts' :: tool_stats where ts: "map_of (stats fc) (active_tool fc) = Some ts"
    and fc': "fc' = fc\<lparr>stats := AList.update (active_tool fc) ts' (stats fc)\<rparr>"
    using compensate_line_Inr[OF assms] by blast
  show ?thesis
    using ts by (auto simp: fc' update_conv')
qed

lemma reachable_stats_tool0:
  assumes "reachable fc"
  shows "map_of (stats fc) 0 \<noteq> None"
  using assms
proof (induction rule: reachable.induct)
  case (init cfg)
  show ?case
    by (simp add: FlowCompensator_init_def init_stats_lookup)
next
  case (load fc material_type tool_num fc')
  then show ?case
    by (simp add: load_material_profile_stats)
next
  case (switch fc tool_num)
  then show ?case
    by (simp add: set_active_tool_def)
next
  case (diameter fc dia)
  then show ?case
    by (simp add: set_filament_diameter_def)
next
  case (line fc l mv out fc')
  from compensate_line_stats_dom[OF line.hyps(2), of 0] line.IH show ?case
    by blast
qed

text \<open>
  Claim C7. A fresh engine has a statistics record for tool 0 and for no other tool, and
  every reachable state has a record for tool 0. Loading a profile for a tool creates
  that tool's record when it has none and changes no record that exists; switching the
  active tool changes no record; \<open>compensate_line\<close> neither creates nor removes a
  record. So in every reachable state a tool other than 0 has a record only if it is
  configured, and for every tool id other than 0, setting the active tool of a fresh
  engine (with a diameter set) to that id gives a reachable state in which
  \<open>compensate_line\<close> raises \<open>KeyError\<close> instead of returning a line.
\<close>

theorem stats_record_only_for_configured_tools:
  "map_of (stats (FlowCompensator_init cfg)) t = (if t = 0 then Some new_stats else None)
   \<and> (reachable fc \<longrightarrow> map_of (stats fc) 0 \<noteq> None)
   \<and> (reachable fc \<and> t \<noteq> 0 \<and> map_of (tool_profiles fc) t = None \<longrightarrow>
        map_of (stats fc) t = None)
   \<and> (load_material_profile material_type t fc = Inr fc' \<longrightarrow>
        map_of (stats fc') t
        = (if map_of (stats fc) t = None then Some new_stats else map_of (stats fc) t)
        \<and> (u \<noteq> t \<longrightarrow> map_of (stats fc') u = map_of (stats fc) u))
   \<and> stats (set_active_tool t fc) = stats fc
   \<and> (compensate_line l mv fc = Inr (out, fc') \<longrightarrow>
        (map_of (stats fc') u \<noteq> None) = (map_of (stats fc) u \<noteq> None))
   \<and> (t \<noteq> 0 \<longrightarrow>
        reachable (set_active_tool t (set_filament_diameter dia (FlowCompensator_init cfg)))
        \<and> compensate_line l mv
            (set_active_tool t (set_filament_diameter dia (FlowCompensator_init cfg)))
          = Inl KeyError)"
proof -
  have 1: "map_of (stats (FlowCompensator_init cfg)) t = (if t = 0 then Some new_stats else None)"
    by (simp add: FlowCompensator_init_def init_stats_lookup)
  have 2: "map_of (stats fc) t = None"
    if "reachable fc" "t \<noteq> 0" "map_of (tool_profiles fc) t = None"
    using that reachable_stats_configured by blast
  have 3: "map_of (stats fc') t
           = (if map_of (stats fc) t = None then Some new_stats else map_of (stats fc) t)
           \<and> (u \<noteq> t \<longrightarrow> map_of (stats fc') u = map_of (stats fc) u)"
    if "load_material_profile material_type t fc = Inr fc'"
    using load_material_profile_stats[OF that] by simp
  have 4: "stats (set_active_tool t fc) = stats fc"
    by (simp add: set_active_tool_def)
  let ?fc = "set_active_tool t (set_filament_diameter dia (FlowCompensator_init cfg))"
  have 5: "reachable ?fc"
    by (intro reachable.switch reachable.diameter reachable.init)
  have 6: "compensate_line l mv ?fc = Inl KeyError" if "t \<noteq> 0"
  proof (rule compensate_line_KeyError)
    show "map_of (stats ?fc) (active_tool ?fc) = None"
      using that
      by (simp add: set_active_tool_def set_filament_diameter_def FlowCompensator_init_def
          init_stats_lookup)
    show "distance mv = 0 \<or> filament_area ?fc \<noteq> None"
      by (simp add: set_active_tool_def set_filament_diameter_def)
  qed
  show ?thesis
    using 1 2 3 4 5 6 reachable_stats_tool0 compensate_line_stats_dom by blast
qed

lemma steep_load_tool1:
  "load_material_profile (Some ''STEEP'') 1 (FlowCompensator_init steep_config)
   = Inr steep_engine_tool1"
  by (simp add: load_material_profile_def FlowCompensator_init_def init_stats_for_tool_def
      steep_config_def steep_profile_def steep_engine_tool1_def steep_spline_def
      get_material_profile_def falsy_profile_def profile_empty_def build_spline_for_profile_def
      PchipInterpolator_def find_derivatives_def hermite_piece_def Let_def)

theorem stats_record_only_for_configured_tools_witness:
  "(1 :: int) \<noteq> 0
   \<and> reachable (FlowCompensator_init steep_config)
   \<and> map_of (tool_profiles (FlowCompensator_init steep_config)) 1 = None
   \<and> map_of (stats (FlowCompensator_init steep_config)) 0 = Some new_stats
   \<and> map_of (stats (FlowCompensator_init steep_config)) 1 = None
   \<and> load_material_profile (Some ''STEEP'') 1 (FlowCompensator_init steep_config)
     = Inr steep_engine_tool1
   \<and> map_of (stats steep_engine_tool1) 1 = Some new_stats
   \<and> map_of (stats steep_engine_tool1) 0 = map_of (stats (FlowCompensator_init steep_config)) 0
   \<and> reachable (set_active_tool 1 (set_filament_diameter 1.75 (FlowCompensator_init steep_config)))
   \<and> compensate_line ''G1 X110 Y100 E5.55 F3000''
        \<lparr>extrusion = 5.55, distance = 10, feedrate = 3000\<rparr>
        (set_active_tool 1 (set_filament_diameter 1.75 (FlowCompensator_init steep_config)))
     = Inl KeyError"
proof -
  let ?init = "FlowCompensator_init steep_config"
  let ?mv = "\<lparr>extrusion = 5.55, distance = 10, feedrate = 3000\<rparr>"
  note a = stats_record_only_for_configured_tools
    [where cfg = steep_config and t = 1 and fc = ?init and fc' = steep_engine_tool1
       and material_type = "Some ''STEEP''" and u = 0 and dia = "1.75"
       and l = "''G1 X110 Y100 E5.55 F3000''" and mv = ?mv]
  have r: "reachable ?init"
    by (rule reachable.init)
  have p: "map_of (tool_profiles ?init) 1 = None"
    by (simp add: FlowCompensator_init_def init_stats_frame)
  have s0: "map_of (stats ?init) 0 = Some new_stats"
    by (simp add: FlowCompensator_init_def init_stats_lookup)
  show ?thesis
    using a r p s0 steep_load_tool1 by simp
qed

text \<open>
  Claim C6 at a concrete state: a fresh engine built from the test configuration, with
  diameter 1.75 and the active tool set to the unconfigured tool 1. The multiplier is 1,
  but \<open>compensate_line\<close> raises \<open>KeyError\<close> on the statistics lookup and returns no line.
\<close>

theorem unconfigured_tool_line_raises:
  "map_of (tool_profiles
      (set_active_tool 1 (set_filament_diameter 1.75 (FlowCompensator_init test_config))))
      (active_tool
        (set_active_tool 1 (set_filament_diameter 1.75 (FlowCompensator_init test_config))))
     = None
   \<and> get_compensation_multiplier
        (set_active_tool 1 (set_filament_diameter 1.75 (FlowCompensator_init test_config))) 5
     = 1
   \<and> compensate_line ''G1 X110 Y100 E5.55 F3000''
        \<lparr>extrusion = 5.55, distance = 10, feedrate = 3000\<rparr>
        (set_active_tool 1 (set_filament_diameter 1.75 (FlowCompensator_init test_config)))
     = Inl KeyError"
  by (simp add: compensate_line_def calculate_flow_rate_def get_compensation_multiplier_def
      set_active_tool_def set_filament_diameter_def FlowCompensator_init_def
      init_stats_for_tool_def)

text \<open>
  Where the unconfigured active tool does have a statistics record, the line passes
  through unchanged and the counter of compensated moves keeps its value.
\<close>

lemma unconfigured_tool_passes_through:
  assumes "map_of (tool_profiles fc) (active_tool fc) = None"
    and "map_of (stats fc) (active_tool fc) = Some ts"
    and "compensate_line l mv fc = Inr (out, fc')"
  shows "out = l \<and> (\<exists>ts'. map_of (stats fc') (active_tool fc') = Some ts'
                       \<and> compensated_moves ts' = compensated_moves ts
                       \<and> total_moves ts' = total_moves ts + 1)"
  using assms
  by (auto simp: compensate_line_def get_compensation_multiplier_def Let_def update_conv'
      split: sum.splits)

subsection \<open>Switching the active tool\<close>

lemma process_line_compensator:
  assumes "process_line hm l d = Inr d'"
  shows "(\<exists>new_tool. tool_switch hm l (compensator d) = Some new_tool
            \<and> compensator d' = set_active_tool new_tool (compensator d))
         \<or> (tool_switch hm l (compensator d) = None
            \<and> tool_profiles (compensator d') = tool_profiles (compensator d)
            \<and> active_tool (compensator d') = active_tool (compensator d))"
proof (cases "tool_switch hm l (compensator d)")
  case (Some new_tool)
  with assms show ?thesis
    by (auto simp: process_line_def)
next
  case None
  obtain mi np nf where pm: "parse_move l (current_pos d) (current_feedrate d) = (mi, np, nf)"
    by (cases "parse_move l (current_pos d) (current_feedrate d)") auto
  show ?thesis
  proof (cases mi)
    case None
    with assms \<open>tool_switch hm l (compensator d) = None\<close> pm show ?thesis
      by (auto simp: process_line_def)
  next
    case (Some mv)
    with assms \<open>tool_switch hm l (compensator d) = None\<close> pm
    obtain out fc' where cl: "compensate_line l mv (compensator d) = Inr (out, fc')"
      and d': "compensator d' = fc'"
      by (auto simp: process_line_def split: sum.splits)
    from compensate_line_Inr[OF cl] d' \<open>tool_switch hm l (compensator d) = None\<close>
    show ?thesis
      by auto
  qed
qed

lemma tool_switch_Some:
  assumes "tool_switch hm l fc = Some new_tool"
  shows "hm \<and> TOOL_CHANGE_match (strip l) = Some new_tool
         \<and> map_of (tool_profiles fc) new_tool \<noteq> None"
  using assms by (auto simp: tool_switch_def split: option.splits if_splits)

lemma process_line_keeps_configured:
  assumes "process_line hm l d = Inr d'"
    and "map_of (tool_profiles (compensator d)) (active_tool (compensator d)) \<noteq> None"
  shows "map_of (tool_profiles (compensator d')) (active_tool (compensator d')) \<noteq> None"
  using process_line_compensator[OF assms(1)] assms(2)
  by (auto simp: set_active_tool_def dest: tool_switch_Some)

lemma process_lines_keep_configured:
  assumes "process_lines hm ls d = Inr d'"
    and "map_of (tool_profiles (compensator d)) (active_tool (compensator d)) \<noteq> None"
  shows "map_of (tool_profiles (compensator d')) (active_tool (compensator d')) \<noteq> None"
  using assms
proof (induction ls arbitrary: d)
  case Nil
  then show ?case
    by simp
next
  case (Cons l ls)
  from Cons.prems(1) obtain d1 where 1: "process_line hm l d = Inr d1"
    and 2: "process_lines hm ls d1 = Inr d'"
    by (auto split: sum.splits)
  have "map_of (tool_profiles (compensator d1)) (active_tool (compensator d1)) \<noteq> None"
    using 1 Cons.prems(2) by (rule process_line_keeps_configured)
  with 2 show ?case
    by (rule Cons.IH)
qed

text \<open>
  Claim C5, as the code has it. \<open>set_active_tool\<close> makes any tool id the active tool,
  configured or not. The guard is in the loop of \<open>main\<close>: a tool-select line whose
  target is not configured leaves the active tool as it was, and if the active tool is
  configured before a line (or a list of lines) is processed, it is configured after.
\<close>

theorem active_tool_guard_is_in_driver:
  "active_tool (set_active_tool t fc) = t
   \<and> (process_line hm l d = Inr d' \<and> TOOL_CHANGE_match (strip l) = Some t
        \<and> map_of (tool_profiles (compensator d)) t = None \<longrightarrow>
        active_tool (compensator d') = active_tool (compensator d))
   \<and> (process_line hm l d = Inr d'
        \<and> map_of (tool_profiles (compensator d)) (active_tool (compensator d)) \<noteq> None \<longrightarrow>
        map_of (tool_profiles (compensator d')) (active_tool (compensator d')) \<noteq> None)
   \<and> (process_lines hm ls d = Inr d''
        \<and> map_of (tool_profiles (compensator d)) (active_tool (compensator d)) \<noteq> None \<longrightarrow>
        map_of (tool_profiles (compensator d'')) (active_tool (compensator d'')) \<noteq> None)"
proof -
  have 1: "active_tool (set_active_tool t fc) = t"
    by (simp add: set_active_tool_def)
  have 2: "active_tool (compensator d') = active_tool (compensator d)"
    if "process_line hm l d = Inr d'" "TOOL_CHANGE_match (strip l) = Some t"
      "map_of (tool_profiles (compensator d)) t = None"
    using process_line_compensator[OF that(1)] that(2,3)
    by (auto dest: tool_switch_Some)
  show ?thesis
    using 1 2 process_line_keeps_configured process_lines_keep_configured by blast
qed

theorem active_tool_guard_is_in_driver_witness:
  "process_line True ''T7'' (start_driver steep_engine)
   = Inr ((start_driver steep_engine)\<lparr>output_lines := [''T7'']\<rparr>)
   \<and> TOOL_CHANGE_match (strip ''T7'') = Some 7
   \<and> map_of (tool_profiles (compensator (start_driver steep_engine))) 7 = None
   \<and> map_of (tool_profiles (compensator (start_driver steep_engine)))
        (active_tool (compensator (start_driver steep_engine))) \<noteq> None
   \<and> process_lines True [''T7''] (start_driver steep_engine)
     = Inr ((start_driver steep_engine)\<lparr>output_lines := [''T7'']\<rparr>)
   \<and> active_tool (compensator ((start_driver steep_engine)\<lparr>output_lines := [''T7'']\<rparr>)) = 0
   \<and> map_of (tool_profiles (compensator ((start_driver steep_engine)\<lparr>output_lines := [''T7'']\<rparr>)))
        (active_tool (compensator ((start_driver steep_engine)\<lparr>output_lines := [''T7'']\<rparr>)))
      \<noteq> None"
proof -
  let ?d = "start_driver steep_engine"
  let ?d' = "?d\<lparr>output_lines := [''T7'']\<rparr>"
  have m: "TOOL_CHANGE_match (strip ''T7'') = Some 7"
    by (simp add: TOOL_CHANGE_match_def strip_def rstrip_def is_space_def is_digit_def
        nat_of_digits_def digit_val_def)
  have n: "map_of (tool_profiles (compensator ?d)) 7 = None"
    by (simp add: start_driver_def steep_engine_def)
  have c: "map_of (tool_profiles (compensator ?d)) (active_tool (compensator ?d)) \<noteq> None"
    by (simp add: start_driver_def steep_engine_def)
  have a: "active_tool (compensator ?d) = 0"
    by (simp add: start_driver_def steep_engine_def)
  have p: "process_line True ''T7'' ?d = Inr ?d'"
    using m n
    by (simp add: process_line_def tool_switch_def parse_move_def G1_PATTERN_match_def
        start_driver_def)
  then have q: "process_lines True [''T7''] ?d = Inr ?d'"
    by simp
  note t = active_tool_guard_is_in_driver [of 7 steep_engine True "''T7''" ?d ?d' "[''T7'']" ?d']
  show ?thesis
    using t m n c a p q by simp
qed

text \<open>
  The claim as stated fails at the engine itself: switching a fresh engine to tool 5,
  which is not configured, is a reachable state whose active tool is 5.
\<close>

theorem active_tool_unconfigured_counterexample:
  "reachable (set_active_tool 5 (FlowCompensator_init test_config))
   \<and> active_tool (FlowCompensator_init test_config) = 0
   \<and> active_tool (set_active_tool 5 (FlowCompensator_init test_config)) = 5
   \<and> map_of (tool_profiles (set_active_tool 5 (FlowCompensator_init test_config))) 5 = None"
proof -
  have "reachable (set_active_tool 5 (FlowCompensator_init test_config))"
    by (intro reachable.switch reachable.init)
  then show ?thesis
    by (simp add: set_active_tool_def FlowCompensator_init_def init_stats_for_tool_def)
qed

subsection \<open>Matching and substituting the extrusion field\<close>

lemma split_sign_append: "split_sign s = (sg, s1) \<Longrightarrow> s = sg @ s1"
  by (auto simp: split_sign_def split: list.splits if_splits)

lemma match_unsigned_append:
  assumes "match_unsigned s = Some (num, rest)"
  shows "s = num @ rest"
proof -
  have td: "takeWhile is_digit u @ dropWhile is_digit u = u" for u
    by simp
  show ?thesis
  proof (cases "dropWhile is_digit s")
    case Nil
    have "match_unsigned s
          = (if takeWhile is_digit s \<noteq> [] then Some (takeWhile is_digit s, []) else None)"
      unfolding match_unsigned_def Let_def Nil by simp
    with assms have nr: "num = takeWhile is_digit s" "rest = []"
      by (auto split: if_splits)
    have "takeWhile is_digit s = s"
      using Nil by simp
    with nr show ?thesis
      by simp
  next
    case (Cons d q)
    show ?thesis
    proof (cases "d = CHR ''.'' \<and> takeWhile is_digit q \<noteq> []")
      case True
      then have "match_unsigned s
            = Some (takeWhile is_digit s @ [d] @ takeWhile is_digit q, dropWhile is_digit q)"
        unfolding match_unsigned_def Let_def Cons by simp
      with assms have "num = takeWhile is_digit s @ [d] @ takeWhile is_digit q"
        "rest = dropWhile is_digit q"
        by auto
      then have "num @ rest = takeWhile is_digit s @ d # q"
        using td[of q] by simp
      also have "\<dots> = s"
        using td[of s] unfolding Cons by simp
      finally show ?thesis
        by simp
    next
      case False
      then have "match_unsigned s
            = (if takeWhile is_digit s \<noteq> [] then Some (takeWhile is_digit s, d # q) else None)"
        unfolding match_unsigned_def Let_def Cons by auto
      with assms have "num = takeWhile is_digit s" "rest = d # q"
        by (auto split: if_splits)
      then show ?thesis
        using td[of s] unfolding Cons by simp
    qed
  qed
qed

lemma match_number_append:
  assumes "match_number s = Some (num, rest)"
  shows "s = num @ rest"
proof -
  obtain sg s1 where sp: "split_sign s = (sg, s1)"
    by (cases "split_sign s") auto
  with assms obtain n where n: "match_unsigned s1 = Some (n, rest)" and num: "num = sg @ n"
    by (auto simp: match_number_def split: option.splits)
  show ?thesis
    using split_sign_append[OF sp] match_unsigned_append[OF n] num by simp
qed

lemma search_field_append:
  assumes "search_field L s = Some (pre, num, rest)"
  shows "s = pre @ L # num @ rest"
  using assms
proof (induction s arbitrary: pre)
  case Nil
  then show ?case
    by simp
next
  case (Cons c s)
  show ?case
  proof (cases "if c = L then match_number s else None")
    case None
    with Cons.prems obtain pre' where p: "search_field L s = Some (pre', num, rest)"
      and pre: "pre = c # pre'"
      by (auto split: option.splits)
    from Cons.IH[OF p] pre show ?thesis
      by simp
  next
    case (Some a)
    with Cons.prems have "c = L" "match_number s = Some (num, rest)" "pre = []"
      by (auto split: if_splits)
    then show ?thesis
      using match_number_append by auto
  qed
qed

lemma sub_from_skip: "sub_from repl (length a) (a @ b) = sub_from repl 0 b"
  by (induction a) simp_all

lemma sub_from_no_match:
  assumes "search_field (CHR ''E'') s = None"
  shows "sub_from repl 0 s = s"
  using assms
  by (induction s) (auto split: option.splits if_splits)

lemma sub_from_first_match:
  assumes "search_field (CHR ''E'') s = Some (pre, num, rest)"
  shows "sub_from repl 0 s = pre @ repl num @ sub_from repl 0 rest"
  using assms
proof (induction s arbitrary: pre)
  case Nil
  then show ?case
    by simp
next
  case (Cons c s)
  show ?case
  proof (cases "if c = CHR ''E'' then match_number s else None")
    case None
    with Cons.prems obtain pre' where p: "search_field (CHR ''E'') s = Some (pre', num, rest)"
      and pre: "pre = c # pre'"
      by (auto split: option.splits)
    from Cons.IH[OF p] pre None show ?thesis
      by simp
  next
    case (Some a)
    with Cons.prems have c: "c = CHR ''E''" and m: "match_number s = Some (num, rest)"
      and pre: "pre = []"
      by (auto split: if_splits)
    have "s = num @ rest"
      using m by (rule match_number_append)
    then have "sub_from repl (length num) s = sub_from repl 0 rest"
      using sub_from_skip by metis
    with c m pre show ?thesis
      by simp
  qed
qed

lemma EXTRUSION_sub_single:
  assumes "search_field (CHR ''E'') l = Some (pre, num, post)"
    and "search_field (CHR ''E'') post = None"
  shows "EXTRUSION_sub repl l = pre @ repl num @ post"
  using assms by (simp add: EXTRUSION_sub_def sub_from_first_match sub_from_no_match)

lemma rstrip_splits: "\<exists>ws. s = rstrip s @ ws \<and> (\<forall>c\<in>set ws. is_space c)"
proof -
  have "rev s = takeWhile is_space (rev s) @ dropWhile is_space (rev s)"
    by simp
  then have "s = rev (dropWhile is_space (rev s)) @ rev (takeWhile is_space (rev s))"
    by (metis rev_append rev_rev_ident)
  moreover have "\<forall>c\<in>set (rev (takeWhile is_space (rev s))). is_space c"
    by (auto dest: set_takeWhileD)
  ultimately show ?thesis
    unfolding rstrip_def by blast
qed

subsection \<open>Decimal digits\<close>

lemma digit_cases:
  assumes "d < (10 :: nat)"
  shows "d = 0 \<or> d = 1 \<or> d = 2 \<or> d = 3 \<or> d = 4 \<or> d = 5 \<or> d = 6 \<or> d = 7 \<or> d = 8 \<or> d = 9"
  using assms by arith

lemma digit_char_props:
  assumes "d < 10"
  shows "is_digit (digit_char d)" and "digit_val (digit_char d) = d"
  using digit_cases[OF assms]
  by (auto simp: digit_char_def is_digit_def digit_val_def)

lemma is_digit_not_special:
  assumes "is_digit c"
  shows "c \<noteq> CHR ''.''" "c \<noteq> CHR ''-''" "c \<noteq> CHR ''+''" "c \<noteq> CHR ''E''"
  using assms by (auto simp: is_digit_def)

lemma zero_is_digit: "is_digit (CHR ''0'')" and zero_digit_val: "digit_val (CHR ''0'') = 0"
  by (simp_all add: is_digit_def digit_val_def)

lemma str_nat_small: "n < 10 \<Longrightarrow> str_nat n = [digit_char n]"
  by (simp add: str_nat.simps)

lemma str_nat_big: "10 \<le> n \<Longrightarrow> str_nat n = str_nat (n div 10) @ [digit_char (n mod 10)]"
  by (subst str_nat.simps) simp

lemma str_nat_nonempty: "str_nat n \<noteq> []"
  by (subst str_nat.simps) simp

lemma str_nat_digits: "c \<in> set (str_nat n) \<Longrightarrow> is_digit c"
proof (induction n arbitrary: c rule: str_nat.induct)
  case (1 n)
  show ?case
  proof (cases "n < 10")
    case True
    with "1.prems" show ?thesis
      by (auto simp: str_nat_small digit_char_props)
  next
    case False
    then have "str_nat n = str_nat (n div 10) @ [digit_char (n mod 10)]"
      by (simp add: str_nat_big)
    with "1.prems" have "c \<in> set (str_nat (n div 10)) \<or> c = digit_char (n mod 10)"
      by auto
    then show ?thesis
      using "1.IH"[OF False] by (auto simp: digit_char_props)
  qed
qed

lemma nat_of_digits_snoc: "nat_of_digits (s @ [c]) = 10 * nat_of_digits s + digit_val c"
  by (simp add: nat_of_digits_def)

lemma nat_of_digits_str_nat: "nat_of_digits (str_nat n) = n"
proof (induction n rule: str_nat.induct)
  case (1 n)
  show ?case
  proof (cases "n < 10")
    case True
    then show ?thesis
      by (simp add: str_nat_small nat_of_digits_def digit_char_props)
  next
    case False
    then have "nat_of_digits (str_nat n) = 10 * nat_of_digits (str_nat (n div 10)) + n mod 10"
      by (simp add: str_nat_big nat_of_digits_snoc digit_char_props)
    with "1.IH"[OF False] show ?thesis
      by simp
  qed
qed

lemma length_str_nat:
  assumes "n < 10 ^ k" "0 < k"
  shows "length (str_nat n) \<le> k"
  using assms
proof (induction n arbitrary: k rule: str_nat.induct)
  case (1 n)
  show ?case
  proof (cases "n < 10")
    case True
    with "1.prems" show ?thesis
      by (simp add: str_nat_small)
  next
    case False
    obtain j where k: "k = Suc j"
      using "1.prems"(2) by (cases k) auto
    have "0 < j"
      using False "1.prems"(1) k by (cases j) auto
    moreover have "n div 10 < 10 ^ j"
      using "1.prems"(1) k by (simp add: less_mult_imp_div_less mult.commute)
    ultimately have "length (str_nat (n div 10)) \<le> j"
      using "1.IH"[OF False] by simp
    with False k show ?thesis
      by (simp add: str_nat_big)
  qed
qed

lemma nat_of_digits_zeros: "nat_of_digits (replicate k (CHR ''0'') @ s) = nat_of_digits s"
proof (induction k)
  case 0
  then show ?case
    by simp
next
  case (Suc k)
  have "foldl (\<lambda>a c. 10 * a + digit_val c) 0 (CHR ''0'' # replicate k (CHR ''0'') @ s)
        = foldl (\<lambda>a c. 10 * a + digit_val c) 0 (replicate k (CHR ''0'') @ s)"
    by (simp add: zero_digit_val)
  with Suc show ?case
    by (simp add: nat_of_digits_def)
qed

lemma zero_pad_props:
  assumes "n < 10 ^ k" "0 < k"
  shows "length (zero_pad k (str_nat n)) = k"
    and "nat_of_digits (zero_pad k (str_nat n)) = n"
    and "\<forall>c\<in>set (zero_pad k (str_nat n)). is_digit c"
proof -
  have l: "length (str_nat n) \<le> k"
    using assms by (rule length_str_nat)
  then show "length (zero_pad k (str_nat n)) = k"
    by (simp add: zero_pad_def)
  show "nat_of_digits (zero_pad k (str_nat n)) = n"
    by (simp add: zero_pad_def nat_of_digits_zeros nat_of_digits_str_nat)
  show "\<forall>c\<in>set (zero_pad k (str_nat n)). is_digit c"
    by (auto simp: zero_pad_def zero_is_digit str_nat_digits)
qed

subsection \<open>Trimming\<close>

lemma rstrip_char_snoc: "rstrip_char c (s @ [x]) = (if x = c then rstrip_char c s else s @ [x])"
  by (simp add: rstrip_char_def)

lemma rstrip_char_keep:
  assumes "x \<noteq> c"
  shows "rstrip_char c (a @ x # s) = a @ x # rstrip_char c s"
  using assms by (simp add: rstrip_char_def dropWhile_append)

lemma rstrip_char_subset: "set (rstrip_char c s) \<subseteq> set s"
  by (induction s rule: rev_induct) (auto simp: rstrip_char_snoc rstrip_char_def)

lemma rstrip_char_Nil: "rstrip_char c [] = []"
  by (simp add: rstrip_char_def)

lemma rstrip_char_last: "rstrip_char c s \<noteq> [] \<Longrightarrow> last (rstrip_char c s) \<noteq> c"
  by (induction s rule: rev_induct) (auto simp: rstrip_char_snoc rstrip_char_Nil split: if_splits)

lemma rstrip_char_id: "s \<noteq> [] \<Longrightarrow> last s \<noteq> c \<Longrightarrow> rstrip_char c s = s"
  by (induction s rule: rev_induct) (auto simp: rstrip_char_snoc)

lemma fraction_value_trimmed:
  "real (nat_of_digits (rstrip_char (CHR ''0'') f)) / 10 ^ length (rstrip_char (CHR ''0'') f)
   = real (nat_of_digits f) / 10 ^ length f"
proof (induction f rule: rev_induct)
  case Nil
  then show ?case
    by (simp add: rstrip_char_def)
next
  case (snoc x f)
  show ?case
  proof (cases "x = CHR ''0''")
    case True
    then have "real (nat_of_digits (f @ [x])) / 10 ^ length (f @ [x])
               = real (nat_of_digits f) / 10 ^ length f"
      by (simp add: nat_of_digits_snoc zero_digit_val)
    with snoc True show ?thesis
      by (simp add: rstrip_char_snoc)
  next
    case False
    then show ?thesis
      by (simp add: rstrip_char_snoc)
  qed
qed

lemma round_half_even_close:
  assumes "0 \<le> a"
  shows "\<bar>real (round_half_even a) - a\<bar> \<le> 1 / 2"
proof -
  define q where "q = nat \<lfloor>a\<rfloor>"
  have q: "real q = of_int \<lfloor>a\<rfloor>"
    using assms by (simp add: q_def)
  have lo: "real q \<le> a" and hi: "a < real q + 1"
    unfolding q by linarith+
  show ?thesis
    using lo hi by (auto simp: round_half_even_def Let_def q_def[symmetric])
qed

subsection \<open>Formatting a number and reading it back\<close>

lemma format_fixed_6:
  fixes v :: real
  defines "r \<equiv> round_half_even (\<bar>v\<bar> * 10 ^ 6)"
  shows "format_fixed 6 v
         = (if v < 0 then ''-'' else []) @ str_nat (r div 10 ^ 6)
           @ CHR ''.'' # zero_pad 6 (str_nat (r mod 10 ^ 6))"
  by (simp add: format_fixed_def Let_def r_def)

lemma trim_number:
  assumes I: "I \<noteq> []" "\<forall>c\<in>set I. is_digit c" and F: "\<forall>c\<in>set F. is_digit c"
    and sg: "sg = [] \<or> sg = ''-''"
  shows "rstrip_char (CHR ''.'') (rstrip_char (CHR ''0'') (CHR ''E'' # sg @ I @ CHR ''.'' # F))
         = CHR ''E'' # sg @ I
           @ (if rstrip_char (CHR ''0'') F = [] then []
              else CHR ''.'' # rstrip_char (CHR ''0'') F)"
proof -
  let ?F' = "rstrip_char (CHR ''0'') F"
  have 1: "rstrip_char (CHR ''0'') (CHR ''E'' # sg @ I @ CHR ''.'' # F)
           = CHR ''E'' # sg @ I @ CHR ''.'' # ?F'"
    using rstrip_char_keep[of "CHR ''.''" "CHR ''0''" "CHR ''E'' # sg @ I" F] by simp
  show ?thesis
  proof (cases "?F' = []")
    case True
    have "last I \<noteq> CHR ''.''"
      using I is_digit_not_special(1) by (metis last_in_set)
    then have "last (CHR ''E'' # sg @ I) \<noteq> CHR ''.''"
      using I(1) by simp
    then have "rstrip_char (CHR ''.'') (CHR ''E'' # sg @ I) = CHR ''E'' # sg @ I"
      by (intro rstrip_char_id) simp_all
    moreover have "rstrip_char (CHR ''.'') ((CHR ''E'' # sg @ I) @ [CHR ''.''])
                   = rstrip_char (CHR ''.'') (CHR ''E'' # sg @ I)"
      by (subst rstrip_char_snoc) simp
    ultimately show ?thesis
      using True 1 by simp
  next
    case False
    have "last ?F' \<in> set F"
      using False rstrip_char_subset by (metis last_in_set subsetD)
    then have "last ?F' \<noteq> CHR ''.''"
      using F is_digit_not_special(1) by blast
    then have "last (CHR ''E'' # sg @ I @ CHR ''.'' # ?F') \<noteq> CHR ''.''"
      using False by simp
    then have "rstrip_char (CHR ''.'') (CHR ''E'' # sg @ I @ CHR ''.'' # ?F')
               = CHR ''E'' # sg @ I @ CHR ''.'' # ?F'"
      by (intro rstrip_char_id) simp_all
    with False 1 show ?thesis
      by simp
  qed
qed

lemma takeWhile_digits:
  assumes "\<forall>c\<in>set I. is_digit c" "u = [] \<or> \<not> is_digit (hd u)"
  shows "takeWhile is_digit (I @ u) = I" and "dropWhile is_digit (I @ u) = u"
proof -
  have u: "takeWhile is_digit u = []" "dropWhile is_digit u = u"
    using assms(2) by (cases u; auto)+
  show "takeWhile is_digit (I @ u) = I"
    using assms(1) u by (simp add: takeWhile_append)
  show "dropWhile is_digit (I @ u) = u"
    using assms(1) u by (simp add: dropWhile_append)
qed

lemma float_of_digits:
  assumes I: "I \<noteq> []" "\<forall>c\<in>set I. is_digit c" and F: "\<forall>c\<in>set F. is_digit c"
    and fpart: "fpart = [] \<and> F = [] \<or> fpart = CHR ''.'' # F"
  shows "float_of_string (I @ fpart) = real (nat_of_digits I) + real (nat_of_digits F) / 10 ^ length F"
    and "float_of_string (''-'' @ I @ fpart)
         = - (real (nat_of_digits I) + real (nat_of_digits F) / 10 ^ length F)"
proof -
  have nd: "fpart = [] \<or> \<not> is_digit (hd fpart)"
    using fpart by (auto simp: is_digit_def)
  have t: "takeWhile is_digit (I @ fpart) = I" and d: "dropWhile is_digit (I @ fpart) = fpart"
    using takeWhile_digits[OF I(2) nd] by simp_all
  have fp: "(case fpart of [] \<Rightarrow> [] | c # r \<Rightarrow> r) = F"
    using fpart by auto
  obtain c I' where Ic: "I = c # I'"
    using I(1) by (cases I) auto
  have c: "c \<noteq> CHR ''-''" "c \<noteq> CHR ''+''"
    using I(2) Ic is_digit_not_special by auto
  have "float_of_string (I @ fpart)
        = (let ip = takeWhile is_digit (I @ fpart);
               fp = (case dropWhile is_digit (I @ fpart) of [] \<Rightarrow> [] | c # r \<Rightarrow> r)
           in real (nat_of_digits ip) + real (nat_of_digits fp) / 10 ^ length fp)"
    using c by (simp add: float_of_string_def Ic Let_def)
  then show "float_of_string (I @ fpart)
             = real (nat_of_digits I) + real (nat_of_digits F) / 10 ^ length F"
    by (simp add: t d fp Let_def)
  have "float_of_string (''-'' @ I @ fpart)
        = (let ip = takeWhile is_digit (I @ fpart);
               fp = (case dropWhile is_digit (I @ fpart) of [] \<Rightarrow> [] | c # r \<Rightarrow> r)
           in - (real (nat_of_digits ip) + real (nat_of_digits fp) / 10 ^ length fp))"
    by (simp add: float_of_string_def Let_def)
  then show "float_of_string (''-'' @ I @ fpart)
             = - (real (nat_of_digits I) + real (nat_of_digits F) / 10 ^ length F)"
    by (simp add: t d fp Let_def)
qed

lemma match_digits:
  assumes I: "I \<noteq> []" "\<forall>c\<in>set I. is_digit c" and F: "\<forall>c\<in>set F. is_digit c"
    and fpart: "fpart = [] \<or> fpart = CHR ''.'' # F \<and> F \<noteq> []"
    and sg: "sg = [] \<or> sg = ''-''"
    and post: "post = [] \<or> \<not> is_digit (hd post)"
    and nf: "fpart = [] \<Longrightarrow> \<not> starts_with_fraction post"
  shows "match_number (sg @ I @ fpart @ post) = Some (sg @ I @ fpart, post)"
proof -
  obtain c I' where Ic: "I = c # I'"
    using I(1) by (cases I) auto
  have c: "c \<noteq> CHR ''-''" "c \<noteq> CHR ''+''"
    using I(2) Ic is_digit_not_special by auto
  have sp: "split_sign (sg @ I @ fpart @ post) = (sg, I @ fpart @ post)"
    using sg c by (auto simp: split_sign_def Ic)
  note pd = post
  have mu: "match_unsigned (I @ fpart @ post) = Some (I @ fpart, post)"
  proof (cases "fpart = []")
    case True
    have t: "takeWhile is_digit (I @ post) = I" and d: "dropWhile is_digit (I @ post) = post"
      using takeWhile_digits[OF I(2) pd] by simp_all
    have "match_unsigned (I @ post) = Some (I, post)"
    proof (cases post)
      case Nil
      show ?thesis
        unfolding match_unsigned_def Let_def t d using I(1) Nil by simp
    next
      case (Cons p ps)
      have "\<not> starts_with_fraction (p # ps)"
        using nf[OF True] Cons by simp
      then have "\<not> (p = CHR ''.'' \<and> takeWhile is_digit ps \<noteq> [])"
        by (cases ps) (auto simp: starts_with_fraction_def)
      then show ?thesis
        unfolding match_unsigned_def Let_def t d using I(1) Cons by auto
    qed
    with True show ?thesis
      by simp
  next
    case False
    with fpart have fr: "fpart = CHR ''.'' # F" and Fne: "F \<noteq> []"
      by auto
    have nd: "fpart @ post = [] \<or> \<not> is_digit (hd (fpart @ post))"
      by (simp add: fr is_digit_def)
    have t: "takeWhile is_digit (I @ fpart @ post) = I"
      and d: "dropWhile is_digit (I @ fpart @ post) = CHR ''.'' # F @ post"
      using takeWhile_digits[OF I(2) nd] by (simp_all add: fr)
    have t2: "takeWhile is_digit (F @ post) = F" and d2: "dropWhile is_digit (F @ post) = post"
      using takeWhile_digits[OF F pd] by simp_all
    show ?thesis
      unfolding match_unsigned_def Let_def t d using t2 d2 Fne by (simp add: fr)
  qed
  show ?thesis
    by (simp add: match_number_def sp mu)
qed

lemma is_digit_not_space: "is_digit c \<Longrightarrow> \<not> is_space c"
  by (auto simp: is_digit_def is_space_def Let_def)

lemma rstrip_append_keep:
  assumes "a \<noteq> []" "\<not> is_space (last a)"
  shows "rstrip (a @ b) = a @ rstrip b"
proof -
  obtain a' x where a: "a = a' @ [x]"
    using assms(1) by (cases a rule: rev_cases) auto
  have "dropWhile is_space (rev a) = rev a"
    using assms(2) by (simp add: a)
  then show ?thesis
    by (simp add: rstrip_def dropWhile_append)
qed

lemma hd_rstrip:
  assumes "rstrip b \<noteq> []"
  shows "hd (rstrip b) = hd b"
proof -
  obtain ws where "b = rstrip b @ ws"
    using rstrip_splits by blast
  then have "hd b = hd (rstrip b @ ws)"
    by simp
  with assms show ?thesis
    by simp
qed

lemma sub_from_hd:
  assumes "s \<noteq> []" "\<And>n. repl n \<noteq> [] \<and> hd (repl n) = CHR ''E''"
  shows "sub_from repl 0 s \<noteq> [] \<and> hd (sub_from repl 0 s) = hd s"
proof -
  obtain c r where s: "s = c # r"
    using assms(1) by (cases s) auto
  show ?thesis
  proof (cases "if c = CHR ''E'' then match_number r else None")
    case None
    then show ?thesis
      by (simp add: s)
  next
    case (Some a)
    then obtain num rest where a: "a = (num, rest)" and c: "c = CHR ''E''"
      by (cases a) (auto split: if_splits)
    with Some assms(2)[of num] show ?thesis
      by (simp add: s)
  qed
qed

lemma real_div_mod:
  fixes r k :: nat
  assumes "0 < k"
  shows "real (r div k) + real (r mod k) / real k = real r / real k"
proof -
  have "real r = real (r div k) * real k + real (r mod k)"
    by (metis div_mult_mod_eq of_nat_add of_nat_mult)
  then show ?thesis
    using assms by (simp add: field_simps)
qed

lemma replace_e_text:
  fixes multiplier :: real and num :: string
  defines "v \<equiv> float_of_string num * multiplier"
  shows "\<exists>t. replace_e multiplier num = CHR ''E'' # t \<and> t \<noteq> [] \<and> is_digit (last t)
             \<and> \<bar>float_of_string t - v\<bar> < 1 / 10 ^ 6
             \<and> (\<forall>post. (post = [] \<or> \<not> is_digit (hd post)) \<and> \<not> starts_with_fraction post \<longrightarrow>
                    match_number (t @ post) = Some (t, post))"
proof -
  define r where "r = round_half_even (\<bar>v\<bar> * 10 ^ 6)"
  define I where "I = str_nat (r div 10 ^ 6)"
  define F where "F = zero_pad 6 (str_nat (r mod 10 ^ 6))"
  define sg where "sg = (if v < 0 then ''-'' else [])"
  define F' where "F' = rstrip_char (CHR ''0'') F"
  define fpart where "fpart = (if F' = [] then [] else CHR ''.'' # F')"
  define t where "t = sg @ I @ fpart"
  have I: "I \<noteq> []" "\<forall>c\<in>set I. is_digit c"
    by (auto simp: I_def str_nat_nonempty str_nat_digits)
  have lt: "r mod 10 ^ 6 < 10 ^ 6"
    by simp
  have F: "\<forall>c\<in>set F. is_digit c" and lF: "length F = 6" and nF: "nat_of_digits F = r mod 10 ^ 6"
    using zero_pad_props[OF lt] by (simp_all add: F_def)
  have F'd: "\<forall>c\<in>set F'. is_digit c"
    using F rstrip_char_subset unfolding F'_def by blast
  have sg: "sg = [] \<or> sg = ''-''"
    by (simp add: sg_def)
  have fmt: "format_fixed 6 v = sg @ I @ CHR ''.'' # F"
    by (simp add: format_fixed_6 r_def I_def F_def sg_def)
  have rep: "replace_e multiplier num = CHR ''E'' # t"
    using trim_number[OF I F sg]
    by (simp add: replace_e_def Let_def v_def[symmetric] fmt t_def fpart_def F'_def)
  have ne: "t \<noteq> []"
    using I(1) by (simp add: t_def)
  have "last t = (if fpart = [] then last I else last F')"
    using I(1) by (auto simp: t_def fpart_def)
  moreover have "is_digit (last I)"
    using I by simp
  moreover have "F' \<noteq> [] \<Longrightarrow> is_digit (last F')"
    using F'd by simp
  ultimately have dl: "is_digit (last t)"
    by (auto simp: fpart_def split: if_splits)
  have fp1: "fpart = [] \<and> F' = [] \<or> fpart = CHR ''.'' # F'"
    by (simp add: fpart_def)
  have val: "real (nat_of_digits I) + real (nat_of_digits F') / 10 ^ length F' = real r / 10 ^ 6"
  proof -
    have "real (nat_of_digits F') / 10 ^ length F' = real (r mod 10 ^ 6) / 10 ^ 6"
      unfolding F'_def fraction_value_trimmed by (simp add: nF lF)
    moreover have "nat_of_digits I = r div 10 ^ 6"
      by (simp add: I_def nat_of_digits_str_nat)
    ultimately show ?thesis
      using real_div_mod[of "10 ^ 6" r] by simp
  qed
  have fl: "float_of_string t = (if v < 0 then - (real r / 10 ^ 6) else real r / 10 ^ 6)"
    using float_of_digits[OF I F'd fp1] val by (simp add: t_def sg_def)
  have "\<bar>real r - \<bar>v\<bar> * 10 ^ 6\<bar> \<le> 1 / 2"
    unfolding r_def by (rule round_half_even_close) simp
  then have b: "\<bar>real r / 10 ^ 6 - \<bar>v\<bar>\<bar> \<le> 5 / 10 ^ 7"
    by (simp add: abs_le_iff field_simps)
  have close: "\<bar>float_of_string t - v\<bar> \<le> 5 / 10 ^ 7"
  proof (cases "v < 0")
    case True
    then have "float_of_string t - v = - (real r / 10 ^ 6 - \<bar>v\<bar>)"
      by (simp add: fl)
    then have "\<bar>float_of_string t - v\<bar> = \<bar>real r / 10 ^ 6 - \<bar>v\<bar>\<bar>"
      by (simp only: abs_minus_cancel)
    with b show ?thesis
      by simp
  next
    case False
    then have "float_of_string t - v = real r / 10 ^ 6 - \<bar>v\<bar>"
      by (simp add: fl)
    with b show ?thesis
      by simp
  qed
  have fp2: "fpart = [] \<or> fpart = CHR ''.'' # F' \<and> F' \<noteq> []"
    by (simp add: fpart_def)
  have mt: "match_number (t @ post) = Some (t, post)"
    if "(post = [] \<or> \<not> is_digit (hd post)) \<and> \<not> starts_with_fraction post" for post
    using match_digits[OF I F'd fp2 sg, of post] that by (simp add: t_def)
  have close': "\<bar>float_of_string t - v\<bar> < 1 / 10 ^ 6"
    using close by simp
  show ?thesis
    using rep ne dl close' mt by blast
qed

lemma replace_e_starts_with_E: "replace_e multiplier num \<noteq> [] \<and> hd (replace_e multiplier num) = CHR ''E''"
  using replace_e_text[of multiplier num] by auto

lemma compensate_line_rewrites:
  assumes "calculate_flow_rate fc (extrusion mv) (distance mv) (feedrate mv) = Inr flow"
    and "map_of (stats fc) (active_tool fc) = Some ts"
    and "\<not> \<bar>get_compensation_multiplier fc flow - 1\<bar> < 0.001"
  shows "\<exists>fc'. compensate_line l mv fc
           = Inr (if log_changes (fc_config fc) = Some False
                  then EXTRUSION_sub (replace_e (get_compensation_multiplier fc flow)) l
                  else rstrip (EXTRUSION_sub (replace_e (get_compensation_multiplier fc flow)) l)
                       @ annotation fc flow (get_compensation_multiplier fc flow),
                  fc')"
  using assms by (auto simp: compensate_line_def Let_def split: option.splits)

subsection \<open>Reading the rewritten field in its line\<close>

lemma takeWhile_stop: "\<not> P e \<Longrightarrow> takeWhile P (b @ e # x) = takeWhile P b"
  by (induction b) simp_all

lemma dropWhile_stop: "\<not> P e \<Longrightarrow> dropWhile P (b @ e # x) = dropWhile P b @ e # x"
  by (induction b) simp_all

lemma E_not_digit: "\<not> is_digit (CHR ''E'')"
  by (simp add: is_digit_def)

lemma takeWhile_digit_E: "takeWhile is_digit (b @ CHR ''E'' # x) = takeWhile is_digit b"
  using E_not_digit by (rule takeWhile_stop)

lemma dropWhile_digit_E:
  "dropWhile is_digit (b @ CHR ''E'' # x) = dropWhile is_digit b @ CHR ''E'' # x"
  using E_not_digit by (rule dropWhile_stop)

lemma match_unsigned_before_E:
  "match_unsigned (b @ CHR ''E'' # x) = None \<longleftrightarrow> match_unsigned (b @ CHR ''E'' # y) = None"
proof -
  have n: "match_unsigned (b @ CHR ''E'' # z) = None
           \<longleftrightarrow> takeWhile is_digit b = []
               \<and> (case dropWhile is_digit b of
                     [] \<Rightarrow> True
                   | c # r \<Rightarrow> \<not> (c = CHR ''.'' \<and> takeWhile is_digit r \<noteq> []))" for z
  proof (cases "dropWhile is_digit b")
    case Nil
    show ?thesis
      unfolding match_unsigned_def Let_def takeWhile_digit_E dropWhile_digit_E Nil
      by simp
  next
    case (Cons c r)
    show ?thesis
      unfolding match_unsigned_def Let_def takeWhile_digit_E dropWhile_digit_E Cons
      by (simp add: takeWhile_digit_E)
  qed
  show ?thesis
    unfolding n ..
qed

lemma match_number_before_E:
  assumes "match_number (a @ CHR ''E'' # x) = None"
  shows "match_number (a @ CHR ''E'' # y) = None"
proof -
  obtain b sg where sp: "\<And>z. split_sign (a @ CHR ''E'' # z) = (sg, b @ CHR ''E'' # z)"
  proof (cases a)
    case Nil
    then have "\<And>z. split_sign (a @ CHR ''E'' # z) = ([], [] @ CHR ''E'' # z)"
      by (simp add: split_sign_def)
    then show ?thesis
      by (rule that)
  next
    case (Cons c a')
    show ?thesis
    proof (cases "c = CHR ''-'' \<or> c = CHR ''+''")
      case True
      then have "\<And>z. split_sign (a @ CHR ''E'' # z) = ([c], a' @ CHR ''E'' # z)"
        by (simp add: split_sign_def Cons)
      then show ?thesis
        by (rule that)
    next
      case False
      then have "\<And>z. split_sign (a @ CHR ''E'' # z) = ([], a @ CHR ''E'' # z)"
        by (simp add: split_sign_def Cons)
      then show ?thesis
        by (rule that)
    qed
  qed
  from assms have "match_unsigned (b @ CHR ''E'' # x) = None"
    by (auto simp: match_number_def sp split: option.splits prod.splits)
  then have "match_unsigned (b @ CHR ''E'' # y) = None"
    using match_unsigned_before_E by blast
  then show ?thesis
    by (simp add: match_number_def sp)
qed

lemma search_field_rewritten:
  assumes "search_field (CHR ''E'') (pre @ CHR ''E'' # x) = Some (pre, num, post)"
    and "match_number y = Some (t, post')"
  shows "search_field (CHR ''E'') (pre @ CHR ''E'' # y) = Some (pre, t, post')"
  using assms(1)
proof (induction pre)
  case Nil
  show ?case
    by (simp add: assms(2))
next
  case (Cons c pre)
  have none: "(if c = CHR ''E'' then match_number (pre @ CHR ''E'' # x) else None) = None"
    using Cons.prems by (auto split: option.splits if_splits)
  then have rest: "search_field (CHR ''E'') (pre @ CHR ''E'' # x) = Some (pre, num, post)"
    using Cons.prems by (auto split: option.splits)
  have none': "(if c = CHR ''E'' then match_number (pre @ CHR ''E'' # y) else None) = None"
    using none match_number_before_E by (auto split: if_splits)
  show ?case
    using Cons.IH[OF rest] none' by simp
qed

lemma match_unsigned_rest:
  assumes "match_unsigned s = Some (num, rest)"
  shows "rest = [] \<or> \<not> is_digit (hd rest)"
proof -
  have d: "dropWhile is_digit u = [] \<or> \<not> is_digit (hd (dropWhile is_digit u))" for u
    by (metis hd_dropWhile)
  show ?thesis
  proof (cases "dropWhile is_digit s")
    case Nil
    with assms show ?thesis
      by (auto simp: match_unsigned_def Let_def split: if_splits)
  next
    case (Cons c r)
    have c: "\<not> is_digit c"
      using d[of s] Cons by simp
    show ?thesis
    proof (cases "c = CHR ''.'' \<and> takeWhile is_digit r \<noteq> []")
      case True
      then have "match_unsigned s
            = Some (takeWhile is_digit s @ [c] @ takeWhile is_digit r, dropWhile is_digit r)"
        unfolding match_unsigned_def Let_def Cons by simp
      with assms have "rest = dropWhile is_digit r"
        by simp
      then show ?thesis
        using d[of r] by simp
    next
      case False
      then have "match_unsigned s
            = (if takeWhile is_digit s \<noteq> [] then Some (takeWhile is_digit s, c # r) else None)"
        unfolding match_unsigned_def Let_def Cons by auto
      with assms have "rest = c # r"
        by (auto split: if_splits)
      with c show ?thesis
        by simp
    qed
  qed
qed

lemma match_number_rest:
  assumes "match_number s = Some (num, rest)"
  shows "rest = [] \<or> \<not> is_digit (hd rest)"
proof -
  obtain sg s1 where "split_sign s = (sg, s1)"
    by (cases "split_sign s") auto
  with assms obtain n where "match_unsigned s1 = Some (n, rest)"
    by (auto simp: match_number_def split: option.splits)
  then show ?thesis
    by (rule match_unsigned_rest)
qed

lemma search_field_rest:
  assumes "search_field L s = Some (pre, num, rest)"
  shows "rest = [] \<or> \<not> is_digit (hd rest)"
  using assms
proof (induction s arbitrary: pre)
  case Nil
  then show ?case
    by simp
next
  case (Cons c s)
  show ?case
  proof (cases "if c = L then match_number s else None")
    case None
    with Cons.prems obtain pre' where "search_field L s = Some (pre', num, rest)"
      by (auto split: option.splits)
    then show ?thesis
      by (rule Cons.IH)
  next
    case (Some a)
    with Cons.prems have "match_number s = Some (num, rest)"
      by (auto split: if_splits)
    then show ?thesis
      by (rule match_number_rest)
  qed
qed

lemma annotation_starts_with_space:
  "annotation fc flow multiplier \<noteq> [] \<and> hd (annotation fc flow multiplier) = CHR '' ''"
  by (simp add: annotation_def Let_def)

lemma space_not_digit: "\<not> is_digit (CHR '' '')"
  by (simp add: is_digit_def)

lemma sub_from_starts_with_fraction:
  assumes "\<And>n. repl n \<noteq> [] \<and> hd (repl n) = CHR ''E''"
  shows "starts_with_fraction (sub_from repl 0 s) = starts_with_fraction s"
proof (cases s)
  case Nil
  then show ?thesis
    by simp
next
  case (Cons c r)
  show ?thesis
  proof (cases "c = CHR ''.''")
    case True
    have s: "sub_from repl 0 s = c # sub_from repl 0 r"
      using True by (simp add: Cons)
    show ?thesis
    proof (cases r)
      case Nil
      then show ?thesis
        using True by (simp add: \<open>s = c # r\<close> starts_with_fraction_def)
    next
      case (Cons d r')
      have "sub_from repl 0 r \<noteq> [] \<and> hd (sub_from repl 0 r) = d"
        using sub_from_hd[of r repl] assms Cons by simp
      then obtain q where "sub_from repl 0 r = d # q"
        by (cases "sub_from repl 0 r") auto
      then show ?thesis
        using True by (simp add: \<open>s = c # r\<close> Cons starts_with_fraction_def)
    qed
  next
    case False
    have "hd (sub_from repl 0 s) = c" "sub_from repl 0 s \<noteq> []"
      using sub_from_hd[of s repl] assms Cons by simp_all
    then obtain q where "sub_from repl 0 s = c # q"
      by (cases "sub_from repl 0 s") auto
    with False show ?thesis
      by (simp add: Cons starts_with_fraction_def split: list.splits)
  qed
qed

lemma sub_from_first_not_digit:
  assumes "\<And>n. repl n \<noteq> [] \<and> hd (repl n) = CHR ''E''" "s = [] \<or> \<not> is_digit (hd s)"
  shows "sub_from repl 0 s = [] \<or> \<not> is_digit (hd (sub_from repl 0 s))"
proof (cases s)
  case Nil
  then show ?thesis
    by simp
next
  case (Cons c r)
  then have "hd (sub_from repl 0 s) = hd s"
    using sub_from_hd[of s repl] assms(1) by simp
  with assms(2) Cons show ?thesis
    by simp
qed

lemma annotated_tail:
  assumes p: "p = [] \<or> \<not> is_digit (hd p)" "\<not> starts_with_fraction p"
    and a: "a \<noteq> [] \<and> hd a = CHR '' ''"
  shows "(rstrip p @ a = [] \<or> \<not> is_digit (hd (rstrip p @ a)))
         \<and> \<not> starts_with_fraction (rstrip p @ a)"
proof -
  obtain ws where ws: "p = rstrip p @ ws"
    using rstrip_splits by blast
  obtain a' where a': "a = CHR '' '' # a'"
    using a by (cases a) auto
  show ?thesis
  proof (cases "rstrip p")
    case Nil
    then show ?thesis
      by (simp add: a' space_not_digit starts_with_fraction_def split: list.splits)
  next
    case (Cons c q)
    then have pc: "p = c # q @ ws"
      using ws by simp
    have c: "\<not> is_digit c"
      using p(1) pc by simp
    show ?thesis
    proof (cases q)
      case Nil
      then show ?thesis
        using c by (simp add: Cons a' space_not_digit starts_with_fraction_def)
    next
      case (Cons d q')
      have "\<not> (c = CHR ''.'' \<and> is_digit d)"
        using p(2) pc Cons by (simp add: starts_with_fraction_def)
      then show ?thesis
        using c by (simp add: \<open>rstrip p = c # q\<close> Cons starts_with_fraction_def)
    qed
  qed
qed

lemma compensated_line_text:
  assumes sf: "search_field (CHR ''E'') l = Some (pre, num, post)"
    and flow: "calculate_flow_rate fc (extrusion mv) (distance mv) (feedrate mv) = Inr flow"
    and ts: "map_of (stats fc) (active_tool fc) = Some ts"
    and mc: "\<not> \<bar>get_compensation_multiplier fc flow - 1\<bar> < 0.001"
  shows "\<exists>fc'. compensate_line l mv fc
           = Inr (pre @ replace_e (get_compensation_multiplier fc flow) num
                  @ (if log_changes (fc_config fc) = Some False
                     then sub_from (replace_e (get_compensation_multiplier fc flow)) 0 post
                     else rstrip (sub_from (replace_e (get_compensation_multiplier fc flow)) 0 post)
                          @ annotation fc flow (get_compensation_multiplier fc flow)),
                  fc')"
proof -
  let ?m = "get_compensation_multiplier fc flow"
  let ?tail = "sub_from (replace_e ?m) 0 post"
  have sub: "EXTRUSION_sub (replace_e ?m) l = pre @ replace_e ?m num @ ?tail"
    using sf by (simp add: EXTRUSION_sub_def sub_from_first_match)
  obtain t where t: "replace_e ?m num = CHR ''E'' # t" "t \<noteq> []" "is_digit (last t)"
    using replace_e_text[of ?m num] by blast
  have "\<not> is_space (last (pre @ replace_e ?m num))"
    using t by (simp add: is_digit_not_space)
  then have rs: "rstrip ((pre @ replace_e ?m num) @ ?tail) = (pre @ replace_e ?m num) @ rstrip ?tail"
    using t(1) by (intro rstrip_append_keep) simp_all
  obtain fc' where
    "compensate_line l mv fc
     = Inr (if log_changes (fc_config fc) = Some False
            then EXTRUSION_sub (replace_e ?m) l
            else rstrip (EXTRUSION_sub (replace_e ?m) l) @ annotation fc flow ?m,
            fc')"
    using compensate_line_rewrites[OF flow ts mc] by blast
  then have "compensate_line l mv fc
     = Inr (pre @ replace_e ?m num
            @ (if log_changes (fc_config fc) = Some False then ?tail
               else rstrip ?tail @ annotation fc flow ?m),
            fc')"
    using rs by (simp add: sub)
  then show ?thesis
    by blast
qed

text \<open>
  Claim C10, as the code has it. For every line that \<open>compensate_line\<close> rewrites (the
  multiplier differs from 1 by at least 0.001), the first extrusion field is replaced by
  the letter and a number text whose value is within 0.000001, one unit of the sixth
  decimal, of the field's value times the multiplier. Unless the text after the field
  begins with a decimal point followed by a digit, searching the rewritten line for the
  extrusion field finds that number text at the place of the old one.
\<close>

theorem rewritten_extrusion_reads_back:
  assumes "search_field (CHR ''E'') l = Some (pre, num, post)"
    and "calculate_flow_rate fc (extrusion mv) (distance mv) (feedrate mv) = Inr flow"
    and "map_of (stats fc) (active_tool fc) = Some ts"
    and "\<not> \<bar>get_compensation_multiplier fc flow - 1\<bar> < 0.001"
  shows "\<exists>t post' fc'.
           compensate_line l mv fc = Inr (pre @ CHR ''E'' # t @ post', fc')
           \<and> replace_e (get_compensation_multiplier fc flow) num = CHR ''E'' # t
           \<and> \<bar>float_of_string t - float_of_string num * get_compensation_multiplier fc flow\<bar>
               < 1 / 10 ^ 6
           \<and> (\<not> starts_with_fraction post \<longrightarrow>
                search_field (CHR ''E'') (pre @ CHR ''E'' # t @ post') = Some (pre, t, post'))"
proof -
  let ?m = "get_compensation_multiplier fc flow"
  let ?tail = "sub_from (replace_e ?m) 0 post"
  let ?post' = "if log_changes (fc_config fc) = Some False then ?tail
                else rstrip ?tail @ annotation fc flow ?m"
  obtain t where t: "replace_e ?m num = CHR ''E'' # t"
    and close: "\<bar>float_of_string t - float_of_string num * ?m\<bar> < 1 / 10 ^ 6"
    and mt: "\<And>q. (q = [] \<or> \<not> is_digit (hd q)) \<and> \<not> starts_with_fraction q
                \<Longrightarrow> match_number (t @ q) = Some (t, q)"
    using replace_e_text[of ?m num] by blast
  obtain fc' where out: "compensate_line l mv fc = Inr (pre @ CHR ''E'' # t @ ?post', fc')"
    using compensated_line_text[OF assms] by (auto simp: t)
  have found: "search_field (CHR ''E'') (pre @ CHR ''E'' # t @ ?post') = Some (pre, t, ?post')"
    if nf: "\<not> starts_with_fraction post"
  proof -
    have l: "l = pre @ CHR ''E'' # num @ post"
      using assms(1) by (rule search_field_append)
    have p1: "post = [] \<or> \<not> is_digit (hd post)"
      using assms(1) by (rule search_field_rest)
    have r: "\<And>n. replace_e ?m n \<noteq> [] \<and> hd (replace_e ?m n) = CHR ''E''"
      by (rule replace_e_starts_with_E)
    have t1: "?tail = [] \<or> \<not> is_digit (hd ?tail)"
      using r p1 by (rule sub_from_first_not_digit)
    have t2: "\<not> starts_with_fraction ?tail"
      using nf sub_from_starts_with_fraction[of "replace_e ?m" post] r by simp
    have "(?post' = [] \<or> \<not> is_digit (hd ?post')) \<and> \<not> starts_with_fraction ?post'"
    proof (cases "log_changes (fc_config fc) = Some False")
      case True
      with t1 t2 show ?thesis
        by simp
    next
      case False
      with annotated_tail[OF t1 t2 annotation_starts_with_space] show ?thesis
        by simp
    qed
    then have "match_number (t @ ?post') = Some (t, ?post')"
      by (rule mt)
    moreover have "search_field (CHR ''E'') (pre @ CHR ''E'' # num @ post) = Some (pre, num, post)"
      using assms(1) l by simp
    ultimately show ?thesis
      by (rule search_field_rewritten[rotated])
  qed
  show ?thesis
    using out t close found by blast
qed

lemma prime_load:
  "load_material_profile (Some ''PRIME'') 0 (FlowCompensator_init (prime_config b))
   = Inr (prime_engine b)"
  by (simp add: load_material_profile_def FlowCompensator_init_def init_stats_for_tool_def
      prime_config_def prime_profile_def prime_engine_def prime_spline_def get_material_profile_def
      falsy_profile_def profile_empty_def build_spline_for_profile_def PchipInterpolator_def
      find_derivatives_def hermite_piece_def Let_def)

lemma prime_multiplier: "get_compensation_multiplier (prime_engine b) 0 = 1.2"
  by (simp add: get_compensation_multiplier_def prime_engine_def prime_spline_def spline_call_def
      cubic_def min_comp_def max_comp_def prime_config_def)

lemma prime_rewrites: "\<not> \<bar>get_compensation_multiplier (prime_engine b) 0 - 1\<bar> < 0.001"
  by (simp add: prime_multiplier)

lemma prime_flow: "calculate_flow_rate (prime_engine b) e 0 f = Inr 0"
  by (simp add: calculate_flow_rate_def)

lemma prime_stats: "map_of (stats (prime_engine b)) (active_tool (prime_engine b)) = Some new_stats"
  by (simp add: prime_engine_def)

lemma replicate_numeral: "replicate (numeral k) x = x # replicate (pred_numeral k) x"
  by (simp add: numeral_eq_Suc)

lemma search_prime_line:
  "search_field (CHR ''E'') ''G1 E2 F1800'' = Some (''G1 '', ''2'', '' F1800'')"
  by (simp add: match_number_def split_sign_def match_unsigned_def is_digit_def Let_def)

theorem rewritten_extrusion_reads_back_witness:
  "search_field (CHR ''E'') ''G1 E2 F1800'' = Some (''G1 '', ''2'', '' F1800'')
   \<and> calculate_flow_rate (prime_engine True) (extrusion prime_move) (distance prime_move)
        (feedrate prime_move) = Inr 0
   \<and> map_of (stats (prime_engine True)) (active_tool (prime_engine True)) = Some new_stats
   \<and> \<not> \<bar>get_compensation_multiplier (prime_engine True) 0 - 1\<bar> < 0.001
   \<and> \<not> starts_with_fraction '' F1800''
   \<and> (\<exists>t post' fc'.
         compensate_line ''G1 E2 F1800'' prime_move (prime_engine True)
         = Inr (''G1 '' @ CHR ''E'' # t @ post', fc')
         \<and> \<bar>float_of_string t - float_of_string ''2'' * get_compensation_multiplier (prime_engine True) 0\<bar>
             < 1 / 10 ^ 6
         \<and> search_field (CHR ''E'') (''G1 '' @ CHR ''E'' # t @ post') = Some (''G1 '', t, post'))"
proof -
  have f: "calculate_flow_rate (prime_engine True) (extrusion prime_move) (distance prime_move)
             (feedrate prime_move) = Inr 0"
    by (simp add: prime_move_def prime_flow)
  have n: "\<not> starts_with_fraction '' F1800''"
    by (simp add: starts_with_fraction_def)
  from rewritten_extrusion_reads_back[OF search_prime_line f prime_stats prime_rewrites] n
  have "\<exists>t post' fc'.
         compensate_line ''G1 E2 F1800'' prime_move (prime_engine True)
         = Inr (''G1 '' @ CHR ''E'' # t @ post', fc')
         \<and> \<bar>float_of_string t - float_of_string ''2'' * get_compensation_multiplier (prime_engine True) 0\<bar>
             < 1 / 10 ^ 6
         \<and> search_field (CHR ''E'') (''G1 '' @ CHR ''E'' # t @ post') = Some (''G1 '', t, post')"
    by blast
  then show ?thesis
    using search_prime_line f prime_stats prime_rewrites n by blast
qed

lemma replace_e_fused: "replace_e 1.2 ''2.5'' = ''E3''"
  by (simp add: replace_e_def float_of_string_def is_digit_def nat_of_digits_def digit_val_def
      format_fixed_def round_half_even_def zero_pad_def str_nat_small str_nat_big digit_char_def
      rstrip_char_def Let_def replicate_numeral)

lemma search_fused_line:
  "search_field (CHR ''E'') ''G1 E2.5.5'' = Some (''G1 '', ''2.5'', ''.5'')"
  by (simp add: match_number_def split_sign_def match_unsigned_def is_digit_def Let_def)

lemma parse_fused_line:
  "fst (parse_move ''G1 E2.5.5'' (current_pos (start_driver (prime_engine False))) 0)
   = Some fused_move"
  by (simp add: parse_move_def G1_PATTERN_match_def search_fused_line Let_def
      float_of_string_def is_digit_def nat_of_digits_def digit_val_def XYZ_findall_def
      apply_axes_def pos_get_def start_driver_def fused_move_def
      match_number_def split_sign_def match_unsigned_def)

lemma compensate_fused_line:
  "map_sum id fst (compensate_line ''G1 E2.5.5'' fused_move (prime_engine False))
   = Inr ''G1 E3.5''"
proof -
  have f: "calculate_flow_rate (prime_engine False) (extrusion fused_move) (distance fused_move)
             (feedrate fused_move) = Inr 0"
    by (simp add: fused_move_def prime_flow)
  obtain fc' where
    "compensate_line ''G1 E2.5.5'' fused_move (prime_engine False)
     = Inr (''G1 '' @ replace_e (get_compensation_multiplier (prime_engine False) 0) ''2.5''
            @ (if log_changes (fc_config (prime_engine False)) = Some False
               then sub_from (replace_e (get_compensation_multiplier (prime_engine False) 0)) 0 ''.5''
               else rstrip (sub_from (replace_e (get_compensation_multiplier (prime_engine False) 0))
                              0 ''.5'')
                    @ annotation (prime_engine False) 0
                        (get_compensation_multiplier (prime_engine False) 0)),
            fc')"
    using compensated_line_text[OF search_fused_line f prime_stats prime_rewrites] by blast
  then have "compensate_line ''G1 E2.5.5'' fused_move (prime_engine False)
     = Inr (''G1 '' @ ''E3''
            @ (if log_changes (fc_config (prime_engine False)) = Some False
               then sub_from (replace_e 1.2) 0 ''.5''
               else rstrip (sub_from (replace_e 1.2) 0 ''.5'')
                    @ annotation (prime_engine False) 0 1.2),
            fc')"
    unfolding prime_multiplier replace_e_fused .
  then show ?thesis
    by (simp add: prime_engine_def prime_config_def)
qed

text \<open>
  The claim as stated fails for a line whose extrusion field is followed by a point and a
  digit. In \<open>G1 E2.5.5\<close> the field read is 2.5; with multiplier 1.2 the product 3 is
  written as \<open>E3\<close>, the trimmed text joins the \<open>.5\<close> behind it, and the rewritten line
  \<open>G1 E3.5\<close> reads back as 3.5.
\<close>

theorem rewritten_extrusion_absorbs_fraction_counterexample:
  "load_material_profile (Some ''PRIME'') 0 (FlowCompensator_init (prime_config False))
   = Inr (prime_engine False)
   \<and> fst (parse_move ''G1 E2.5.5'' (current_pos (start_driver (prime_engine False))) 0)
   = Some fused_move
   \<and> search_field (CHR ''E'') ''G1 E2.5.5'' = Some (''G1 '', ''2.5'', ''.5'')
   \<and> get_compensation_multiplier (prime_engine False) 0 = 1.2
   \<and> map_sum id fst (compensate_line ''G1 E2.5.5'' fused_move (prime_engine False))
     = Inr ''G1 E3.5''
   \<and> search_field (CHR ''E'') ''G1 E3.5'' = Some (''G1 '', ''3.5'', [])
   \<and> \<not> \<bar>float_of_string ''3.5'' - float_of_string ''2.5'' * 1.2\<bar> < 1 / 10 ^ 6"
proof -
  have 1: "search_field (CHR ''E'') ''G1 E3.5'' = Some (''G1 '', ''3.5'', [])"
    by (simp add: match_number_def split_sign_def match_unsigned_def is_digit_def Let_def)
  have 2: "float_of_string ''3.5'' = 3.5" "float_of_string ''2.5'' = 2.5"
    by (simp_all add: float_of_string_def is_digit_def nat_of_digits_def digit_val_def)
  have 3: "\<not> \<bar>float_of_string ''3.5'' - float_of_string ''2.5'' * 1.2\<bar> < 1 / 10 ^ 6"
    unfolding 2 by simp
  show ?thesis
    using prime_load parse_fused_line search_fused_line prime_multiplier compensate_fused_line 1 3
    by blast
qed

subsection \<open>What a rewritten line keeps\<close>

text \<open>
  Claim C9, as the code has it, for a line in which the extrusion pattern matches exactly
  once and which \<open>compensate_line\<close> rewrites. The line is the text before the field, the
  letter, the number text and the text after it. Without annotation the output is the
  same with a new number text in place of the old one. With annotation the white space
  at the end of the line (the line terminator included) is removed before the annotation,
  which ends in a newline, is appended; everything else is kept.
\<close>

theorem only_extrusion_field_rewritten:
  assumes "search_field (CHR ''E'') l = Some (pre, num, post)"
    and "search_field (CHR ''E'') post = None"
    and "calculate_flow_rate fc (extrusion mv) (distance mv) (feedrate mv) = Inr flow"
    and "map_of (stats fc) (active_tool fc) = Some ts"
    and "\<not> \<bar>get_compensation_multiplier fc flow - 1\<bar> < 0.001"
  shows "\<exists>t ws fc'.
           l = pre @ CHR ''E'' # num @ post
           \<and> match_number t = Some (t, [])
           \<and> post = rstrip post @ ws \<and> (\<forall>c\<in>set ws. is_space c)
           \<and> compensate_line l mv fc
             = Inr (if log_changes (fc_config fc) = Some False
                    then pre @ CHR ''E'' # t @ post
                    else pre @ CHR ''E'' # t @ rstrip post
                         @ annotation fc flow (get_compensation_multiplier fc flow),
                    fc')"
proof -
  let ?m = "get_compensation_multiplier fc flow"
  have l: "l = pre @ CHR ''E'' # num @ post"
    using assms(1) by (rule search_field_append)
  obtain t where t: "replace_e ?m num = CHR ''E'' # t"
    and mt: "\<And>q. (q = [] \<or> \<not> is_digit (hd q)) \<and> \<not> starts_with_fraction q
                \<Longrightarrow> match_number (t @ q) = Some (t, q)"
    using replace_e_text[of ?m num] by blast
  have m0: "match_number t = Some (t, [])"
    using mt[of "[]"] by (simp add: starts_with_fraction_def)
  obtain ws where ws: "post = rstrip post @ ws" "\<forall>c\<in>set ws. is_space c"
    using rstrip_splits by blast
  have tail: "sub_from (replace_e ?m) 0 post = post"
    using assms(2) by (rule sub_from_no_match)
  obtain fc' where "compensate_line l mv fc
     = Inr (if log_changes (fc_config fc) = Some False
            then pre @ CHR ''E'' # t @ post
            else pre @ CHR ''E'' # t @ rstrip post @ annotation fc flow ?m,
            fc')"
    using compensated_line_text[OF assms(1,3,4,5)] by (auto simp: t tail)
  with l m0 ws show ?thesis
    by blast
qed

lemma prime_multiplier_fraction: "get_compensation_multiplier (prime_engine b) 0 = 6 / 5"
  using prime_multiplier[of b] by simp

lemma replace_e_prime: "replace_e (6 / 5) ''2'' = ''E2.4''"
  by (simp add: replace_e_def float_of_string_def is_digit_def nat_of_digits_def digit_val_def
      format_fixed_def round_half_even_def zero_pad_def str_nat_small str_nat_big digit_char_def
      rstrip_char_def Let_def replicate_numeral)

lemma replace_e_brand: "replace_e (6 / 5) ''3'' = ''E3.6''"
  by (simp add: replace_e_def float_of_string_def is_digit_def nat_of_digits_def digit_val_def
      format_fixed_def round_half_even_def zero_pad_def str_nat_small str_nat_big digit_char_def
      rstrip_char_def Let_def replicate_numeral)

lemma prime_annotation:
  "annotation (prime_engine True) 0 (6 / 5) = '' ; flow_comp: 0.0mm3/s x1.200'' @ [CHR 0x0A]"
  by (simp add: annotation_def prime_engine_def format_fixed_def round_half_even_def
      zero_pad_def str_nat_small str_nat_big digit_char_def replicate_numeral)

lemma prime_move_flow:
  "calculate_flow_rate (prime_engine b) (extrusion prime_move) (distance prime_move)
     (feedrate prime_move) = Inr 0"
  by (simp add: prime_move_def prime_flow)

lemma search_terminated_line:
  "search_field (CHR ''E'') (''G1 E2 F1800'' @ [CHR 0x0A])
   = Some (''G1 '', ''2'', '' F1800'' @ [CHR 0x0A])"
  by (simp add: match_number_def split_sign_def match_unsigned_def is_digit_def Let_def)

lemma search_no_second_field: "search_field (CHR ''E'') ('' F1800'' @ [CHR 0x0A]) = None"
  by simp

theorem only_extrusion_field_rewritten_witness:
  "search_field (CHR ''E'') (''G1 E2 F1800'' @ [CHR 0x0A])
   = Some (''G1 '', ''2'', '' F1800'' @ [CHR 0x0A])
   \<and> search_field (CHR ''E'') ('' F1800'' @ [CHR 0x0A]) = None
   \<and> calculate_flow_rate (prime_engine True) (extrusion prime_move) (distance prime_move)
        (feedrate prime_move) = Inr 0
   \<and> map_of (stats (prime_engine True)) (active_tool (prime_engine True)) = Some new_stats
   \<and> \<not> \<bar>get_compensation_multiplier (prime_engine True) 0 - 1\<bar> < 0.001
   \<and> (\<exists>t fc'. match_number t = Some (t, [])
         \<and> compensate_line (''G1 E2 F1800'' @ [CHR 0x0A]) prime_move (prime_engine True)
           = Inr (''G1 '' @ CHR ''E'' # t @ '' F1800''
                  @ '' ; flow_comp: 0.0mm3/s x1.200'' @ [CHR 0x0A], fc'))"
proof -
  have r: "rstrip ('' F1800'' @ [CHR 0x0A]) = '' F1800''"
    by (simp add: rstrip_def is_space_def)
  have lg: "log_changes (fc_config (prime_engine True)) \<noteq> Some False"
    by (simp add: prime_engine_def prime_config_def)
  from only_extrusion_field_rewritten
    [OF search_terminated_line search_no_second_field prime_move_flow prime_stats prime_rewrites]
  obtain t fc' and ws :: string where "match_number t = Some (t, [])"
    and "compensate_line (''G1 E2 F1800'' @ [CHR 0x0A]) prime_move (prime_engine True)
         = Inr (if log_changes (fc_config (prime_engine True)) = Some False
                then ''G1 '' @ CHR ''E'' # t @ '' F1800'' @ [CHR 0x0A]
                else ''G1 '' @ CHR ''E'' # t @ rstrip ('' F1800'' @ [CHR 0x0A])
                     @ annotation (prime_engine True) 0
                         (get_compensation_multiplier (prime_engine True) 0),
                fc')"
    by blast
  then have "\<exists>t fc'. match_number t = Some (t, [])
         \<and> compensate_line (''G1 E2 F1800'' @ [CHR 0x0A]) prime_move (prime_engine True)
           = Inr (''G1 '' @ CHR ''E'' # t @ '' F1800''
                  @ '' ; flow_comp: 0.0mm3/s x1.200'' @ [CHR 0x0A], fc')"
    unfolding r prime_multiplier_fraction prime_annotation using lg by auto
  then show ?thesis
    using search_terminated_line search_no_second_field prime_move_flow prime_stats
      prime_rewrites by blast
qed


lemma search_blank_line:
  "search_field (CHR ''E'') (''G1 E2 F1800  '' @ [CHR 0x0A])
   = Some (''G1 '', ''2'', '' F1800  '' @ [CHR 0x0A])"
  by (simp add: match_number_def split_sign_def match_unsigned_def is_digit_def Let_def)

lemma compensate_blank_line:
  "map_sum id fst
     (compensate_line (''G1 E2 F1800  '' @ [CHR 0x0A]) prime_move (prime_engine True))
   = Inr (''G1 E2.4 F1800 ; flow_comp: 0.0mm3/s x1.200'' @ [CHR 0x0A])"
proof -
  obtain fc' where
    "compensate_line (''G1 E2 F1800  '' @ [CHR 0x0A]) prime_move (prime_engine True)
     = Inr (''G1 '' @ replace_e (get_compensation_multiplier (prime_engine True) 0) ''2''
            @ (if log_changes (fc_config (prime_engine True)) = Some False
               then sub_from (replace_e (get_compensation_multiplier (prime_engine True) 0)) 0
                      ('' F1800  '' @ [CHR 0x0A])
               else rstrip (sub_from (replace_e (get_compensation_multiplier (prime_engine True) 0))
                              0 ('' F1800  '' @ [CHR 0x0A]))
                    @ annotation (prime_engine True) 0
                        (get_compensation_multiplier (prime_engine True) 0)),
            fc')"
    using compensated_line_text[OF search_blank_line prime_move_flow prime_stats prime_rewrites]
    by blast
  then have "compensate_line (''G1 E2 F1800  '' @ [CHR 0x0A]) prime_move (prime_engine True)
     = Inr (''G1 '' @ ''E2.4''
            @ (if log_changes (fc_config (prime_engine True)) = Some False
               then sub_from (replace_e (6 / 5)) 0 ('' F1800  '' @ [CHR 0x0A])
               else rstrip (sub_from (replace_e (6 / 5)) 0 ('' F1800  '' @ [CHR 0x0A]))
                    @ ('' ; flow_comp: 0.0mm3/s x1.200'' @ [CHR 0x0A])),
            fc')"
    unfolding prime_multiplier_fraction replace_e_prime prime_annotation .
  then show ?thesis
    by (simp add: prime_engine_def prime_config_def rstrip_def is_space_def)
qed

lemma search_brand_line:
  "search_field (CHR ''E'') ''G1 E2 F1800 ; E3D nozzle''
   = Some (''G1 '', ''2'', '' F1800 ; E3D nozzle'')"
  by (simp add: match_number_def split_sign_def match_unsigned_def is_digit_def Let_def)

lemma sub_brand_tail:
  "sub_from (replace_e (6 / 5)) 0 '' F1800 ; E3D nozzle'' = '' F1800 ; E3.6D nozzle''"
  by (simp add: match_number_def split_sign_def match_unsigned_def is_digit_def Let_def
      replace_e_brand)

lemma compensate_brand_line:
  "map_sum id fst (compensate_line ''G1 E2 F1800 ; E3D nozzle'' prime_move (prime_engine False))
   = Inr ''G1 E2.4 F1800 ; E3.6D nozzle''"
proof -
  obtain fc' where
    "compensate_line ''G1 E2 F1800 ; E3D nozzle'' prime_move (prime_engine False)
     = Inr (''G1 '' @ replace_e (get_compensation_multiplier (prime_engine False) 0) ''2''
            @ (if log_changes (fc_config (prime_engine False)) = Some False
               then sub_from (replace_e (get_compensation_multiplier (prime_engine False) 0)) 0
                      '' F1800 ; E3D nozzle''
               else rstrip (sub_from (replace_e (get_compensation_multiplier (prime_engine False) 0))
                              0 '' F1800 ; E3D nozzle'')
                    @ annotation (prime_engine False) 0
                        (get_compensation_multiplier (prime_engine False) 0)),
            fc')"
    using compensated_line_text[OF search_brand_line prime_move_flow prime_stats prime_rewrites]
    by blast
  then have "compensate_line ''G1 E2 F1800 ; E3D nozzle'' prime_move (prime_engine False)
     = Inr (''G1 '' @ ''E2.4''
            @ (if log_changes (fc_config (prime_engine False)) = Some False
               then '' F1800 ; E3.6D nozzle''
               else rstrip '' F1800 ; E3.6D nozzle''
                    @ annotation (prime_engine False) 0 (6 / 5)),
            fc')"
    unfolding prime_multiplier_fraction replace_e_prime sub_brand_tail .
  then show ?thesis
    by (simp add: prime_engine_def prime_config_def)
qed

text \<open>
  The claim as stated fails in two ways. With annotation switched on, the blanks at the
  end of \<open>G1 E2 F1800\<close> followed by two blanks and a newline are not in the output: after
  \<open>F1800\<close> the output continues with the annotation. And every match of the extrusion
  pattern is rewritten, not only the extrusion field: in the comment of
  \<open>G1 E2 F1800 ; E3D nozzle\<close> the text \<open>E3D\<close> becomes \<open>E3.6D\<close>.
\<close>

theorem rewritten_line_loses_text_counterexample:
  "load_material_profile (Some ''PRIME'') 0 (FlowCompensator_init (prime_config True))
   = Inr (prime_engine True)
   \<and> load_material_profile (Some ''PRIME'') 0 (FlowCompensator_init (prime_config False))
     = Inr (prime_engine False)
   \<and> search_field (CHR ''E'') (''G1 E2 F1800  '' @ [CHR 0x0A])
   = Some (''G1 '', ''2'', '' F1800  '' @ [CHR 0x0A])
   \<and> map_sum id fst
       (compensate_line (''G1 E2 F1800  '' @ [CHR 0x0A]) prime_move (prime_engine True))
     = Inr (''G1 E2.4 F1800 ; flow_comp: 0.0mm3/s x1.200'' @ [CHR 0x0A])
   \<and> take 15 (''G1 E2.4 F1800 ; flow_comp: 0.0mm3/s x1.200'' @ [CHR 0x0A])
     \<noteq> ''G1 E2.4 F1800  ''
   \<and> search_field (CHR ''E'') ''G1 E2 F1800 ; E3D nozzle''
     = Some (''G1 '', ''2'', '' F1800 ; E3D nozzle'')
   \<and> map_sum id fst
       (compensate_line ''G1 E2 F1800 ; E3D nozzle'' prime_move (prime_engine False))
     = Inr ''G1 E2.4 F1800 ; E3.6D nozzle''
   \<and> ''G1 E2.4 F1800 ; E3.6D nozzle'' \<noteq> ''G1 E2.4'' @ '' F1800 ; E3D nozzle''"
proof -
  have "take 15 (''G1 E2.4 F1800 ; flow_comp: 0.0mm3/s x1.200'' @ [CHR 0x0A])
        \<noteq> ''G1 E2.4 F1800  ''"
    by simp
  moreover have "''G1 E2.4 F1800 ; E3.6D nozzle'' \<noteq> ''G1 E2.4'' @ '' F1800 ; E3D nozzle''"
    by simp
  ultimately show ?thesis
    using prime_load search_blank_line compensate_blank_line search_brand_line
      compensate_brand_line
    by blast
qed

subsection \<open>Which lines the move parser accepts\<close>

lemma parse_move_unrecognised:
  assumes "\<not> G1_PATTERN_match l"
  shows "parse_move l p f = (None, p, f)"
  using assms by (simp add: parse_move_def)

lemma parse_move_travel:
  assumes "G1_PATTERN_match l"
    and "search_field (CHR ''E'') l = None
         \<or> (\<exists>pre num post. search_field (CHR ''E'') l = Some (pre, num, post)
                            \<and> float_of_string num = 0)"
  shows "parse_move l p f
         = (None, apply_axes p (XYZ_findall l),
            (case search_field (CHR ''F'') l of
               Some (_, num, _) \<Rightarrow> float_of_string num
             | None \<Rightarrow> f))"
  using assms by (auto simp: parse_move_def Let_def)

lemma G1_PATTERN_match_prefix:
  "G1_PATTERN_match l \<longleftrightarrow> (\<exists>r. l = ''G0'' @ r \<or> l = ''G1'' @ r)"
  by (auto simp: G1_PATTERN_match_def split: list.splits)

text \<open>
  Claim C4 at a concrete line. \<open>G10 L2 P1 X0 Y0 Z0\<close> carries the command G10, which is
  neither G0 nor G1, but it begins with the two characters \<open>G1\<close>, which is all the
  pattern asks for: the parser returns no move descriptor and moves the position to
  0 on the three axes.
\<close>

theorem parse_move_accepts_G10:
  "G1_PATTERN_match ''G10 L2 P1 X0 Y0 Z0''
   \<and> parse_move ''G10 L2 P1 X0 Y0 Z0'' printing_pos 3000
     = (None, printing_pos(''x'' \<mapsto> 0, ''y'' \<mapsto> 0, ''z'' \<mapsto> 0), 3000)
   \<and> printing_pos ''x'' = Some 100
   \<and> (printing_pos(''x'' \<mapsto> 0, ''y'' \<mapsto> 0, ''z'' \<mapsto> 0)) ''x'' = Some 0"
proof -
  have g: "G1_PATTERN_match ''G10 L2 P1 X0 Y0 Z0''"
    by (simp add: G1_PATTERN_match_def)
  have f: "search_field (CHR ''F'') ''G10 L2 P1 X0 Y0 Z0'' = None"
    by simp
  have e: "search_field (CHR ''E'') ''G10 L2 P1 X0 Y0 Z0'' = None"
    by simp
  have a: "XYZ_findall ''G10 L2 P1 X0 Y0 Z0''
           = [(CHR ''X'', ''0''), (CHR ''Y'', ''0''), (CHR ''Z'', ''0'')]"
    by (simp add: XYZ_findall_def match_number_def split_sign_def match_unsigned_def
        is_digit_def Let_def)
  have z: "float_of_string ''0'' = 0"
    by (simp add: float_of_string_def is_digit_def nat_of_digits_def digit_val_def)
  have p: "apply_axes printing_pos [(CHR ''X'', ''0''), (CHR ''Y'', ''0''), (CHR ''Z'', ''0'')]
           = printing_pos(''x'' \<mapsto> 0, ''y'' \<mapsto> 0, ''z'' \<mapsto> 0)"
    by (simp add: apply_axes_def lower_char_def z)
  have "parse_move ''G10 L2 P1 X0 Y0 Z0'' printing_pos 3000
        = (None, printing_pos(''x'' \<mapsto> 0, ''y'' \<mapsto> 0, ''z'' \<mapsto> 0), 3000)"
    using parse_move_travel[OF g, of printing_pos 3000] e by (simp add: f a p)
  moreover have "printing_pos ''x'' = Some 100"
    by (simp add: printing_pos_def)
  moreover have "(printing_pos(''x'' \<mapsto> 0, ''y'' \<mapsto> 0, ''z'' \<mapsto> 0)) ''x'' = Some 0"
    by simp
  ultimately show ?thesis
    using g by blast
qed

end
